theory Spec2Isabelle
  imports Complex_Main
begin

section \<open>Data model\<close>

text \<open>
  The aligner of \<^verbatim>\<open>functions/summarize_video/main.py\<close> works on Python dictionaries:
  a video shot \<^verbatim>\<open>{start_time, end_time}\<close>, a word \<^verbatim>\<open>{text, startTime, endTime}\<close> and a
  transcript line (a clip) with the keys of a word plus \<^verbatim>\<open>duration\<close>, which the aligner
  writes. Times are Python numbers. They are modelled as rationals: the aligner only
  compares them, takes \<^verbatim>\<open>min\<close> and \<^verbatim>\<open>max\<close> of them, and subtracts the adjusted start
  from the adjusted end; on floating-point numbers other than NaN the comparisons, \<^verbatim>\<open>min\<close>
  and \<^verbatim>\<open>max\<close> are exact, and the sign of a rounded difference is the sign of the exact
  one.
\<close>

datatype error = IndexError | KeyError | TypeError | UnboundLocalError

record shot =
  start_time :: rat
  end_time :: rat

record word =
  text' :: string
  startTime :: rat
  endTime :: rat

record clip = word +
  duration :: "rat option"

text \<open>\<^verbatim>\<open>xs[i]\<close> for a non-negative index: IndexError beyond the end of the list.\<close>

definition item :: "'a list \<Rightarrow> nat \<Rightarrow> error + 'a" where
  "item xs i = (if i < length xs then Inr (xs ! i) else Inl IndexError)"

section \<open>The aligner: \<^verbatim>\<open>match_with_video_shots\<close>\<close>

text \<open>
  Line 74: \<^verbatim>\<open>while video_shots[shot_index]['end_time'] <= line['startTime']: shot_index += 1\<close>.
  The loop reads the list before it tests anything else, so it raises IndexError when the
  cursor leaves the list.
\<close>

function skip_shots_le :: "shot list \<Rightarrow> rat \<Rightarrow> nat \<Rightarrow> error + nat" where
  "skip_shots_le video_shots t shot_index =
     (if shot_index < length video_shots then
        (if end_time (video_shots ! shot_index) \<le> t
         then skip_shots_le video_shots t (shot_index + 1)
         else Inr shot_index)
      else Inl IndexError)"
  by pat_completeness auto
termination
  by (relation "measure (\<lambda>(video_shots, t, shot_index). length video_shots - shot_index)") auto

text \<open>Line 88: \<^verbatim>\<open>while video_shots[shot_index]['end_time'] < line['endTime']: shot_index += 1\<close>.\<close>

function skip_shots_lt :: "shot list \<Rightarrow> rat \<Rightarrow> nat \<Rightarrow> error + nat" where
  "skip_shots_lt video_shots t shot_index =
     (if shot_index < length video_shots then
        (if end_time (video_shots ! shot_index) < t
         then skip_shots_lt video_shots t (shot_index + 1)
         else Inr shot_index)
      else Inl IndexError)"
  by pat_completeness auto
termination
  by (relation "measure (\<lambda>(video_shots, t, shot_index). length video_shots - shot_index)") auto

text \<open>
  Lines 79-81:
  \<^verbatim>\<open>while (word_index + 1 < len(words) - 1 and words[word_index+1]['endTime'] < line['startTime'])\<close>.
  \<^verbatim>\<open>len(words) - 1\<close> is a Python integer and is negative for an empty list, so the guard
  is written over \<open>int\<close>. The guard is tested first (\<^verbatim>\<open>and\<close> short-circuits), hence the
  read is always in range.
\<close>

function previous_word_loop :: "word list \<Rightarrow> rat \<Rightarrow> nat \<Rightarrow> nat" where
  "previous_word_loop words t word_index =
     (if int word_index + 1 < int (length words) - 1 \<and> endTime (words ! (word_index + 1)) < t
      then previous_word_loop words t (word_index + 1)
      else word_index)"
  by pat_completeness auto
termination
  by (relation "measure (\<lambda>(words, t, word_index). length words - word_index)") auto

text \<open>
  Lines 94-96:
  \<^verbatim>\<open>while (word_index < len(words) - 2 and words[word_index]['startTime'] < line['endTime'])\<close>.
\<close>

function next_word_loop :: "word list \<Rightarrow> rat \<Rightarrow> nat \<Rightarrow> nat" where
  "next_word_loop words t word_index =
     (if int word_index < int (length words) - 2 \<and> startTime (words ! word_index) < t
      then next_word_loop words t (word_index + 1)
      else word_index)"
  by pat_completeness auto
termination
  by (relation "measure (\<lambda>(words, t, word_index). length words - word_index)") auto

text \<open>
  Lines 74-86, the start of one line. The arguments are the two cursors and
  \<^verbatim>\<open>line['startTime']\<close>; the result is the two cursors and the local \<^verbatim>\<open>start_time\<close>
  (called \<open>new_start\<close> here, \<open>start_time\<close> being a field of a shot). The word under
  the word cursor of the result is \<^verbatim>\<open>previous_word\<close>.
\<close>

definition adjust_start ::
  "shot list \<Rightarrow> word list \<Rightarrow> nat \<Rightarrow> nat \<Rightarrow> rat \<Rightarrow> error + (nat \<times> nat \<times> rat)" where
  "adjust_start video_shots words shot_index word_index line_start =
     (case skip_shots_le video_shots line_start shot_index of
        Inl e \<Rightarrow> Inl e
      | Inr shot_index1 \<Rightarrow>
          (let video_shot = video_shots ! shot_index1;
               tentative = min line_start (start_time video_shot);
               word_index1 = previous_word_loop words line_start word_index
           in case item words word_index1 of
                Inl e \<Rightarrow> Inl e
              | Inr previous_word \<Rightarrow>
                  Inr (shot_index1, word_index1,
                       if startTime previous_word \<noteq> line_start
                       then max (endTime previous_word) tentative
                       else tentative)))"

text \<open>
  Lines 88-99, the end of one line; the word under the word cursor of the result is
  \<^verbatim>\<open>next_word\<close>.
\<close>

definition adjust_end ::
  "shot list \<Rightarrow> word list \<Rightarrow> nat \<Rightarrow> nat \<Rightarrow> rat \<Rightarrow> error + (nat \<times> nat \<times> rat)" where
  "adjust_end video_shots words shot_index word_index line_end =
     (case skip_shots_lt video_shots line_end shot_index of
        Inl e \<Rightarrow> Inl e
      | Inr shot_index2 \<Rightarrow>
          (let video_shot = video_shots ! shot_index2;
               tentative = max line_end (end_time video_shot);
               word_index2 = next_word_loop words line_end word_index
           in case item words word_index2 of
                Inl e \<Rightarrow> Inl e
              | Inr next_word \<Rightarrow>
                  Inr (shot_index2, word_index2,
                       if endTime next_word \<noteq> line_end
                       then min tentative (startTime next_word)
                       else tentative)))"

text \<open>
  The body of the \<^verbatim>\<open>for\<close> loop (lines 74-102). Line 86 overwrites \<^verbatim>\<open>line['startTime']\<close>
  before the end is computed; the end is computed from \<^verbatim>\<open>line['endTime']\<close> alone, which is
  still the original one.
\<close>

definition adjust_line ::
  "shot list \<Rightarrow> word list \<Rightarrow> nat \<times> nat \<Rightarrow> clip \<Rightarrow> error + ((nat \<times> nat) \<times> clip)" where
  "adjust_line video_shots words cursors line =
     (case adjust_start video_shots words (fst cursors) (snd cursors) (startTime line) of
        Inl e \<Rightarrow> Inl e
      | Inr (shot_index1, word_index1, new_start) \<Rightarrow>
          (case adjust_end video_shots words shot_index1 word_index1 (endTime line) of
             Inl e \<Rightarrow> Inl e
           | Inr (shot_index2, word_index2, new_end) \<Rightarrow>
               Inr ((shot_index2, word_index2),
                    line\<lparr>startTime := new_start, endTime := new_end,
                         duration := Some (new_end - new_start)\<rparr>)))"

text \<open>
  The \<^verbatim>\<open>for\<close> loop over the transcript, with the two cursors threaded through it. An
  IndexError leaves the function; no result is returned then.
\<close>

fun match_loop ::
  "shot list \<Rightarrow> word list \<Rightarrow> nat \<times> nat \<Rightarrow> clip list \<Rightarrow> error + clip list" where
  "match_loop video_shots words cursors [] = Inr []"
| "match_loop video_shots words cursors (line # rest) =
     (case adjust_line video_shots words cursors line of
        Inl e \<Rightarrow> Inl e
      | Inr (cursors', line') \<Rightarrow>
          (case match_loop video_shots words cursors' rest of
             Inl e \<Rightarrow> Inl e
           | Inr rest' \<Rightarrow> Inr (line' # rest')))"

definition match_with_video_shots ::
  "shot list \<Rightarrow> clip list \<Rightarrow> word list \<Rightarrow> error + clip list" where
  "match_with_video_shots video_shots transcript words =
     match_loop video_shots words (0, 0) transcript"

text \<open>
  The positions of the two cursors in the run of \<open>match_loop\<close>: for every line that is
  processed without an IndexError, the shot cursor and the word cursor after line 82 (the
  word cursor is then the index of \<^verbatim>\<open>previous_word\<close>) and after line 97 (the index of
  \<^verbatim>\<open>next_word\<close>). It follows the recursion of \<open>match_loop\<close> and calls the same
  functions.
\<close>

fun cursor_trace ::
  "shot list \<Rightarrow> word list \<Rightarrow> nat \<times> nat \<Rightarrow> clip list \<Rightarrow> (nat \<times> nat \<times> nat \<times> nat) list" where
  "cursor_trace video_shots words cursors [] = []"
| "cursor_trace video_shots words cursors (line # rest) =
     (case adjust_start video_shots words (fst cursors) (snd cursors) (startTime line) of
        Inl e \<Rightarrow> []
      | Inr (shot_index1, word_index1, new_start) \<Rightarrow>
          (case adjust_end video_shots words shot_index1 word_index1 (endTime line) of
             Inl e \<Rightarrow> []
           | Inr (shot_index2, word_index2, new_end) \<Rightarrow>
               (shot_index1, word_index1, shot_index2, word_index2) #
               cursor_trace video_shots words (shot_index2, word_index2) rest))"

section \<open>Preconditions of the aligner\<close>

text \<open>
  The aligner assumes its inputs ordered and does not check it. The words are in order when
  no word ends before it starts and every word ends no later than each later word starts;
  the same for the lines of the transcript (the segments to align).
\<close>

definition words_in_order :: "word list \<Rightarrow> bool" where
  "words_in_order words \<longleftrightarrow>
     list_all (\<lambda>w. startTime w \<le> endTime w) words \<and>
     sorted_wrt (\<lambda>w v. endTime w \<le> startTime v) words"

definition lines_in_order :: "clip list \<Rightarrow> bool" where
  "lines_in_order transcript \<longleftrightarrow>
     list_all (\<lambda>l. startTime l \<le> endTime l) transcript \<and>
     sorted_wrt (\<lambda>l m. endTime l \<le> startTime m) transcript"

text \<open>
  A line lies on word boundaries when it starts where some word starts and ends where a
  word ends whose index is at most \<open>max 0 (len(words) - 2)\<close>, the largest index the word
  cursor takes: any word but the last one, or the only word.
\<close>

definition on_word_boundaries :: "word list \<Rightarrow> clip \<Rightarrow> bool" where
  "on_word_boundaries words line \<longleftrightarrow>
     startTime line \<in> set (map startTime words) \<and>
     endTime line \<in> set (map endTime (take (max 1 (length words - 1)) words))"

text \<open>
  The shots cover the lines when there is a shot and the last shot ends after every line's
  start and not before any line's end: then neither shot loop leaves the list.
\<close>

definition covered_by_shots :: "shot list \<Rightarrow> clip list \<Rightarrow> bool" where
  "covered_by_shots video_shots transcript \<longleftrightarrow>
     video_shots \<noteq> [] \<and>
     list_all (\<lambda>l. startTime l < end_time (last video_shots) \<and>
                    endTime l \<le> end_time (last video_shots)) transcript"

section \<open>What a cursor loop computes, in the words of the specification\<close>

text \<open>
  "Advance the cursor while the condition holds": \<open>j\<close> is the first index from \<open>i\<close> on at
  which the loop's condition fails (\<open>stop\<close> holds). This is a statement about indices; it
  does not mention the loops of the model.
\<close>

definition first_from :: "nat \<Rightarrow> nat \<Rightarrow> (nat \<Rightarrow> bool) \<Rightarrow> bool" where
  "first_from i j stop \<longleftrightarrow> i \<le> j \<and> stop j \<and> (\<forall>k. i \<le> k \<and> k < j \<longrightarrow> \<not> stop k)"

text \<open>
  The cursors a line is processed from: \<open>(0, 0)\<close> for the first line, and for a later line
  the cursors the line before it left.
\<close>

definition cursors_before :: "shot list \<Rightarrow> word list \<Rightarrow> clip list \<Rightarrow> nat \<Rightarrow> nat \<times> nat" where
  "cursors_before video_shots words transcript i =
     (if i = 0 then (0, 0)
      else (case cursor_trace video_shots words (0, 0) transcript ! (i - 1) of
              (si1, wi1, si2, wi2) \<Rightarrow> (si2, wi2)))"

section \<open>An example\<close>

text \<open>
  One shot from 0 to 10 and five words; the lines are the second and third word, and in
  \<open>ex_three\<close> the last word as well.
\<close>

definition ex_shots :: "shot list" where
  "ex_shots = [\<lparr>start_time = 0, end_time = 10\<rparr>]"

definition ex_words :: "word list" where
  "ex_words =
     [\<lparr>text' = ''a'', startTime = 0, endTime = 1 / 2\<rparr>,
      \<lparr>text' = ''b'', startTime = 1, endTime = 2\<rparr>,
      \<lparr>text' = ''c'', startTime = 3, endTime = 4\<rparr>,
      \<lparr>text' = ''d'', startTime = 5, endTime = 6\<rparr>,
      \<lparr>text' = ''e'', startTime = 7, endTime = 8\<rparr>]"

definition ex_clip :: "string \<Rightarrow> rat \<Rightarrow> rat \<Rightarrow> rat option \<Rightarrow> clip" where
  "ex_clip s a b d = \<lparr>text' = s, startTime = a, endTime = b, duration = d\<rparr>"

definition ex_two :: "clip list" where
  "ex_two = [ex_clip ''b'' 1 2 None, ex_clip ''c'' 3 4 None]"

definition ex_three :: "clip list" where
  "ex_three = [ex_clip ''b'' 1 2 None, ex_clip ''c'' 3 4 None, ex_clip ''e'' 7 8 None]"

text \<open>Two shots, the first of which ends before the third word starts.\<close>

definition ex_two_shots :: "shot list" where
  "ex_two_shots = [\<lparr>start_time = 0, end_time = 5 / 2\<rparr>, \<lparr>start_time = 5 / 2, end_time = 10\<rparr>]"

section \<open>The request and the collaborators of \<^verbatim>\<open>summarize_transcript\<close>\<close>

text \<open>
  A value of the request payload, as far as the function looks at it: \<^verbatim>\<open>None\<close> (also what
  \<^verbatim>\<open>request.data.get\<close> gives for a missing key), a boolean, an integer (unbounded in
  Python), a float, a string, or anything else (a list, a dictionary).
\<close>

datatype json = JNone | JBool bool | JInt int | JFloat rat | JStr string | JOther

text \<open>A line of the input transcript: \<^verbatim>\<open>{text, words}\<close>.\<close>

record transcript_line =
  line_text :: string
  line_words :: "word list"

text \<open>
  \<^verbatim>\<open>request.data\<close>: the transcript, which line 129 reads with \<^verbatim>\<open>[...]\<close> (a KeyError when
  it is missing), and the other keys, which are read with \<^verbatim>\<open>.get\<close>.
\<close>

record request =
  req_transcript :: "transcript_line list option"
  req_data :: "string \<rightharpoonup> json"

definition data_get :: "request \<Rightarrow> string \<Rightarrow> json" where
  "data_get request key = (case req_data request key of None \<Rightarrow> JNone | Some v \<Rightarrow> v)"

datatype language = Thai | DefaultLanguage

text \<open>
  The modules \<^verbatim>\<open>llm\<close>, \<^verbatim>\<open>languages\<close> and \<^verbatim>\<open>firestore\<close> are not part of the source file;
  their functions are parameters. The language model is not deterministic: its reply is a
  function of the number of calls made before, of the prompt and of the temperature
  argument (\<open>None\<close> where the call passes none), so that every sequence of replies is a
  value of the parameter. The two writes to the store (lines 219 and 231) are not read
  back and are left out; the evaluation of their arguments is modelled. Python's
  \<^verbatim>\<open>float\<close> on a string is a parameter as well (\<open>None\<close> where it raises ValueError).
\<close>

record 'd collaborators =
  send_transcript_to_llm :: "nat \<Rightarrow> string \<Rightarrow> rat option \<Rightarrow> string"
  make_prompt :: "string \<Rightarrow> json \<Rightarrow> string"
  make_prompt_summarize :: "string \<Rightarrow> json \<Rightarrow> string"
  keep_branding_sentences :: "string \<Rightarrow> string"
  make_prompt_match_sentence_to_bullet_points :: "string \<Rightarrow> string \<Rightarrow> string"
  transform_sentences_to_dict :: "string \<Rightarrow> 'd"
  make_shortened_text :: "'d \<Rightarrow> string"
  get_clips_from_transcript :: "language \<Rightarrow> word list \<Rightarrow> string \<Rightarrow> transcript_line list \<Rightarrow> clip list"
  get_video_shots :: "json \<Rightarrow> shot list"
  float_of_str :: "string \<Rightarrow> rat option"

section \<open>Reading the duration range (lines 133-140)\<close>

definition MAX_DURATION :: rat where
  "MAX_DURATION = 40"

definition MIN_DURATION :: rat where
  "MIN_DURATION = 10"

definition LANGUAGE_CODE :: string where
  "LANGUAGE_CODE = ''en-US''"

text \<open>
  \<^verbatim>\<open>float(x)\<close>: TypeError on \<^verbatim>\<open>None\<close>, a list or a dictionary, ValueError on a string that
  is no number, OverflowError on an integer too large for a float; \<open>None\<close> stands for all
  three, the \<^verbatim>\<open>except\<close> of line 137 catching everything. An integer is too large when
  rounding it to the nearest float leaves the range of the floats: the largest float is
  \<open>2^1024 - 2^971\<close>, and the integers of absolute value \<open>2^1024 - 2^970\<close> and more round
  beyond it. A float is returned as it is.
\<close>

definition float_overflows :: "int \<Rightarrow> bool" where
  "float_overflows n \<longleftrightarrow> 2 ^ 1024 - 2 ^ 970 \<le> \<bar>n\<bar>"

definition py_float :: "(string \<Rightarrow> rat option) \<Rightarrow> json \<Rightarrow> rat option" where
  "py_float of_str v =
     (case v of
        JNone \<Rightarrow> None
      | JBool b \<Rightarrow> Some (if b then 1 else 0)
      | JInt n \<Rightarrow> (if float_overflows n then None else Some (of_int n))
      | JFloat x \<Rightarrow> Some x
      | JStr s \<Rightarrow> of_str s
      | JOther \<Rightarrow> None)"

text \<open>
  The \<^verbatim>\<open>try\<close> block: the three assignments in order, and the three defaults when one of
  the two conversions raises. \<^verbatim>\<open>request.data.get('language_code')\<close> does not raise.
\<close>

definition read_bounds :: "'d collaborators \<Rightarrow> request \<Rightarrow> rat \<times> rat \<times> json" where
  "read_bounds env request =
     (case py_float (float_of_str env) (data_get request ''max'') of
        None \<Rightarrow> (MAX_DURATION, MIN_DURATION, JStr LANGUAGE_CODE)
      | Some max_duration \<Rightarrow>
          (case py_float (float_of_str env) (data_get request ''min'') of
             None \<Rightarrow> (MAX_DURATION, MIN_DURATION, JStr LANGUAGE_CODE)
           | Some min_duration \<Rightarrow>
               (max_duration, min_duration, data_get request ''language_code'')))"

section \<open>The duration of a shortened text (lines 39-54)\<close>

text \<open>
  \<^verbatim>\<open>total_duration += clip.get('duration')\<close>: adding \<^verbatim>\<open>None\<close> to a number is a TypeError.
\<close>

fun sum_durations :: "rat \<Rightarrow> clip list \<Rightarrow> error + rat" where
  "sum_durations total_duration [] = Inr total_duration"
| "sum_durations total_duration (clip # clips) =
     (case duration clip of
        None \<Rightarrow> Inl TypeError
      | Some d \<Rightarrow> sum_durations (total_duration + d) clips)"

definition calculate_duration ::
  "'d collaborators \<Rightarrow> language \<Rightarrow> string \<Rightarrow> word list \<Rightarrow> shot list \<Rightarrow> transcript_line list \<Rightarrow>
   error + rat" where
  "calculate_duration env language shortened_text transcript_words video_shots input_transcript =
     (case match_with_video_shots video_shots
             (get_clips_from_transcript env language transcript_words shortened_text
                input_transcript)
             transcript_words of
        Inl e \<Rightarrow> Inl e
      | Inr clips \<Rightarrow> sum_durations 0 clips)"

section \<open>The retry loop (lines 177-193)\<close>

text \<open>
  The state of the loop: the number of calls of the language model made so far, and the
  locals \<^verbatim>\<open>shortened_text\<close>, \<^verbatim>\<open>duration\<close> and \<^verbatim>\<open>temperature\<close>. The temperature is a Python
  float that starts at 0.2 and grows by 0.1; it is modelled as a rational. The floats are
  0.30000000000000004, 0.4, 0.5 and 0.6, and they compare with 0.6 as the rationals 3/10,
  4/10, 5/10 and 6/10 do. The temperature is not passed to the language model.

  The body of the loop, lines 179-193. In the branch of line 180 nothing but
  \<^verbatim>\<open>shortened_text\<close> is assigned: the computation of the duration and the increment of the
  temperature are in the \<^verbatim>\<open>else\<close> branch.
\<close>

definition retry_body ::
  "'d collaborators \<Rightarrow> language \<Rightarrow> string \<Rightarrow> json \<Rightarrow> rat \<Rightarrow> word list \<Rightarrow> shot list \<Rightarrow>
   transcript_line list \<Rightarrow> nat \<times> string \<times> rat \<times> rat \<Rightarrow> error + (nat \<times> string \<times> rat \<times> rat)" where
  "retry_body env language full_text user_prompt min_duration transcript_words video_shots
     input_transcript state =
     (case state of (calls, shortened_text, dur, temperature) \<Rightarrow>
        if dur < min_duration then
          Inr (calls + 1,
               send_transcript_to_llm env calls (make_prompt env full_text user_prompt) None,
               dur, temperature)
        else
          (let shortened_text' =
                 send_transcript_to_llm env calls (make_prompt env shortened_text user_prompt) None
           in case calculate_duration env language shortened_text' transcript_words video_shots
                     input_transcript of
                Inl e \<Rightarrow> Inl e
              | Inr dur' \<Rightarrow> Inr (calls + 1, shortened_text', dur', temperature + 1 / 10)))"

text \<open>
  The \<^verbatim>\<open>while\<close> of line 178. It need not terminate, so it is a partial function: \<open>None\<close>
  is the run that never leaves the loop.
\<close>

partial_function (option) retry_loop ::
  "'d collaborators \<Rightarrow> language \<Rightarrow> string \<Rightarrow> json \<Rightarrow> rat \<Rightarrow> rat \<Rightarrow> word list \<Rightarrow> shot list \<Rightarrow>
   transcript_line list \<Rightarrow> nat \<times> string \<times> rat \<times> rat \<Rightarrow>
   (error + (nat \<times> string \<times> rat \<times> rat)) option" where
  "retry_loop env language full_text user_prompt max_duration min_duration transcript_words
     video_shots input_transcript state =
     (case state of (calls, shortened_text, dur, temperature) \<Rightarrow>
        if temperature < 6 / 10 \<and> (dur > max_duration \<or> dur < min_duration) then
          (case retry_body env language full_text user_prompt min_duration transcript_words
                  video_shots input_transcript state of
             Inl e \<Rightarrow> Some (Inl e)
           | Inr state' \<Rightarrow>
               retry_loop env language full_text user_prompt max_duration min_duration
                 transcript_words video_shots input_transcript state')
        else Some (Inr state))"

declare retry_loop.simps [code]

section \<open>\<^verbatim>\<open>summarize_transcript\<close> (lines 107-238)\<close>

text \<open>
  What the function returns: the dictionary with the segments, or, at line 161, a
  \<^verbatim>\<open>ValueError\<close> object (it is returned, not raised).
\<close>

datatype response = Summarized "clip list" | ReturnedValueError string

text \<open>
  How a part of the function ends: with an exception, with a \<^verbatim>\<open>return\<close>, or by going on
  to the next statement with its locals.
\<close>

datatype 'a flow = Raised error | Returned response | Continue 'a

text \<open>\<^verbatim>\<open>'\\n'.join(xs)\<close>.\<close>

fun join_lines :: "string list \<Rightarrow> string" where
  "join_lines [] = []"
| "join_lines [x] = x"
| "join_lines (x # y # ys) = x @ [CHR 0x0A] @ join_lines (y # ys)"

text \<open>\<^verbatim>\<open>s.strip(cs)\<close>.\<close>

definition strip_chars :: "char list \<Rightarrow> string \<Rightarrow> string" where
  "strip_chars cs s =
     rev (dropWhile (\<lambda>c. List.member cs c) (rev (dropWhile (\<lambda>c. List.member cs c) s)))"

text \<open>The ASCII characters that \<^verbatim>\<open>str.strip()\<close> removes.\<close>

definition whitespace :: "char list" where
  "whitespace =
     [CHR 0x20, CHR 0x09, CHR 0x0A, CHR 0x0B, CHR 0x0C, CHR 0x0D,
      CHR 0x1C, CHR 0x1D, CHR 0x1E, CHR 0x1F]"

text \<open>The decimal digits of a number, for the f-string of line 196.\<close>

fun str_of_nat :: "nat \<Rightarrow> string" where
  "str_of_nat n =
     (if n < 10 then [char_of (48 + n)]
      else str_of_nat (n div 10) @ [char_of (48 + n mod 10)])"

text \<open>
  The branch \<^verbatim>\<open>version == "automated"\<close>, lines 152-193, entered after \<open>calls\<close> calls of the
  language model. It leaves \<^verbatim>\<open>full_text\<close> and \<^verbatim>\<open>shortened_text\<close> to the statements that
  follow.
\<close>

definition automated ::
  "'d collaborators \<Rightarrow> language \<Rightarrow> json \<Rightarrow> rat \<Rightarrow> rat \<Rightarrow> word list \<Rightarrow> shot list \<Rightarrow>
   transcript_line list \<Rightarrow> (string \<times> string) flow option" where
  "automated env language user_prompt max_duration min_duration transcript_words video_shots
     input_transcript =
     (let full_text = join_lines (map line_text input_transcript);
          shortened_text = send_transcript_to_llm env 0 (make_prompt env full_text user_prompt) None
      in if shortened_text = ''The response was blocked'' then
           Some (Returned (ReturnedValueError
             ''The response was blocked due to potential violation of Responsible AI''))
         else
           (case calculate_duration env language shortened_text transcript_words video_shots
                   input_transcript of
              Inl e \<Rightarrow> Some (Raised e)
            | Inr dur \<Rightarrow>
                (case retry_loop env language full_text user_prompt max_duration min_duration
                        transcript_words video_shots input_transcript
                        (1, shortened_text, dur, 2 / 10) of
                   None \<Rightarrow> None
                 | Some (Inl e) \<Rightarrow> Some (Raised e)
                 | Some (Inr (calls, shortened_text', dur', temperature)) \<Rightarrow>
                     Some (Continue (full_text, shortened_text')))))"

text \<open>The branch \<^verbatim>\<open>version == "topic"\<close>, lines 196-217.\<close>

definition topic :: "'d collaborators \<Rightarrow> json \<Rightarrow> transcript_line list \<Rightarrow> string \<times> string" where
  "topic env user_prompt input_transcript =
     (let full_text =
            join_lines (map (\<lambda>(counter, x). ''Line '' @ str_of_nat counter @ '': '' @ line_text x)
                          (enumerate 0 input_transcript));
          summary_in_bullets =
            strip_chars [CHR 0x20]
              (send_transcript_to_llm env 0 (make_prompt_summarize env full_text user_prompt) None);
          branding_sentences =
            strip_chars whitespace
              (send_transcript_to_llm env 1 (keep_branding_sentences env full_text) (Some (1 / 10)));
          match_sentences_to_bullet_points =
            strip_chars whitespace
              (send_transcript_to_llm env 2
                 (make_prompt_match_sentence_to_bullet_points env full_text summary_in_bullets)
                 None)
            @ [CHR 0x0A] @ [CHR 0x0A] @ branding_sentences
      in (full_text,
          make_shortened_text env (transform_sentences_to_dict env match_sentences_to_bullet_points)))"

text \<open>
  Lines 219-238. \<^verbatim>\<open>full_text\<close> and \<^verbatim>\<open>shortened_text\<close> are assigned in the two branches
  only; line 219 reads them, and reading a local that was never assigned raises
  UnboundLocalError.
\<close>

definition finish ::
  "'d collaborators \<Rightarrow> language \<Rightarrow> word list \<Rightarrow> shot list \<Rightarrow> transcript_line list \<Rightarrow>
   (string \<times> string) option \<Rightarrow> error + response" where
  "finish env language transcript_words video_shots input_transcript locals =
     (case locals of
        None \<Rightarrow> Inl UnboundLocalError
      | Some (full_text, shortened_text) \<Rightarrow>
          (case match_with_video_shots video_shots
                  (get_clips_from_transcript env language transcript_words shortened_text
                     input_transcript)
                  transcript_words of
             Inl e \<Rightarrow> Inl e
           | Inr segments \<Rightarrow> Inr (Summarized segments)))"

text \<open>
  The whole function. \<open>None\<close>: it never returns. \<open>Some (Inl e)\<close>: it raises \<open>e\<close>.
  \<open>Some (Inr r)\<close>: it returns \<open>r\<close>.
\<close>

definition summarize_transcript :: "'d collaborators \<Rightarrow> request \<Rightarrow> (error + response) option" where
  "summarize_transcript env request =
     (case req_transcript request of
        None \<Rightarrow> Some (Inl KeyError)
      | Some input_transcript \<Rightarrow>
          (let user_prompt = data_get request ''prompt'';
               filename = data_get request ''filename'';
               version = data_get request ''version'';
               (max_duration, min_duration, language_code) = read_bounds env request;
               language = (if language_code = JStr ''th-TH'' then Thai else DefaultLanguage);
               transcript_words = concat (map line_words input_transcript);
               video_shots = get_video_shots env filename
           in if version = JStr ''automated'' then
                (case automated env language user_prompt max_duration min_duration
                        transcript_words video_shots input_transcript of
                   None \<Rightarrow> None
                 | Some (Raised e) \<Rightarrow> Some (Inl e)
                 | Some (Returned r) \<Rightarrow> Some (Inr r)
                 | Some (Continue locals) \<Rightarrow>
                     Some (finish env language transcript_words video_shots input_transcript
                             (Some locals)))
              else if version = JStr ''topic'' then
                Some (finish env language transcript_words video_shots input_transcript
                        (Some (topic env user_prompt input_transcript)))
              else
                Some (finish env language transcript_words video_shots input_transcript None)))"

section \<open>Example collaborators\<close>

text \<open>
  A span mapper that knows two shortened texts, a language model that gives its replies
  from a list, prompts that are the text itself, and a request over the five words of the
  example, with its version and its duration range.
\<close>

definition ex_mapper :: "language \<Rightarrow> word list \<Rightarrow> string \<Rightarrow> transcript_line list \<Rightarrow> clip list" where
  "ex_mapper language words shortened_text input_transcript =
     (if shortened_text = ''b'' then [ex_clip ''b'' 1 2 None]
      else if shortened_text = ''b c'' then ex_two
      else [])"

definition ex_env :: "string list \<Rightarrow> string collaborators" where
  "ex_env replies =
     \<lparr>send_transcript_to_llm =
        (\<lambda>calls prompt temperature. if calls < length replies then replies ! calls else []),
      make_prompt = (\<lambda>text user_prompt. text),
      make_prompt_summarize = (\<lambda>text user_prompt. text),
      keep_branding_sentences = (\<lambda>text. text),
      make_prompt_match_sentence_to_bullet_points = (\<lambda>text bullets. text),
      transform_sentences_to_dict = (\<lambda>text. text),
      make_shortened_text = (\<lambda>text. text),
      get_clips_from_transcript = ex_mapper,
      get_video_shots = (\<lambda>filename. ex_shots),
      float_of_str = (\<lambda>s. None)\<rparr>"

definition ex_line :: transcript_line where
  "ex_line = \<lparr>line_text = ''a b c d e'', line_words = ex_words\<rparr>"

definition ex_request :: "json \<Rightarrow> json \<Rightarrow> json \<Rightarrow> request" where
  "ex_request version max_field min_field =
     \<lparr>req_transcript = Some [ex_line],
      req_data = [''version'' \<mapsto> version, ''max'' \<mapsto> max_field, ''min'' \<mapsto> min_field,
                  ''language_code'' \<mapsto> JStr ''th-TH'']\<rparr>"

section \<open>The example, evaluated\<close>

lemma ex_two_run:
  "match_with_video_shots ex_shots ex_two ex_words =
     Inr [ex_clip ''b'' (1 / 2) 3 (Some (5 / 2)), ex_clip ''c'' 0 5 (Some 5)]"
  by code_simp

lemma ex_two_trace:
  "cursor_trace ex_shots ex_words (0, 0) ex_two = [(0, 0, 0, 2), (0, 2, 0, 3)]"
  by code_simp

lemma ex_two_rerun:
  "match_with_video_shots ex_shots
     [ex_clip ''b'' (1 / 2) 3 (Some (5 / 2)), ex_clip ''c'' 0 5 (Some 5)] ex_words =
     Inr [ex_clip ''b'' (1 / 2) 3 (Some (5 / 2)), ex_clip ''c'' 4 5 (Some 1)]"
  by code_simp

lemma ex_two_retrace:
  "cursor_trace ex_shots ex_words (0, 0)
     [ex_clip ''b'' (1 / 2) 3 (Some (5 / 2)), ex_clip ''c'' 0 5 (Some 5)] = [(0, 0, 0, 2), (0, 2, 0, 3)]"
  by code_simp

lemma ex_three_run:
  "match_with_video_shots ex_shots ex_three ex_words =
     Inr [ex_clip ''b'' (1 / 2) 3 (Some (5 / 2)), ex_clip ''c'' 0 5 (Some 5),
          ex_clip ''e'' 6 5 (Some (- 1))]"
  by code_simp

lemma ex_words_in_order: "words_in_order ex_words"
  by code_simp

lemma ex_two_in_order: "lines_in_order ex_two"
  by code_simp

lemma ex_three_in_order: "lines_in_order ex_three"
  by code_simp

lemma ex_two_on_words: "list_all (on_word_boundaries ex_words) ex_two"
  by code_simp

section \<open>The four cursor loops\<close>

declare skip_shots_le.simps [simp del] skip_shots_lt.simps [simp del]
  previous_word_loop.simps [simp del] next_word_loop.simps [simp del]

lemma skip_shots_le_Inr:
  "skip_shots_le video_shots t i = Inr j \<Longrightarrow>
     i \<le> j \<and> j < length video_shots \<and> t < end_time (video_shots ! j) \<and>
     (\<forall>k. i \<le> k \<and> k < j \<longrightarrow> end_time (video_shots ! k) \<le> t)"
proof (induction video_shots t i rule: skip_shots_le.induct)
  case (1 video_shots t i)
  show ?case
  proof (cases "i < length video_shots \<and> end_time (video_shots ! i) \<le> t")
    case True
    then have "skip_shots_le video_shots t (i + 1) = Inr j"
      using "1.prems" by (simp add: skip_shots_le.simps [of video_shots t i])
    with True "1.IH" have ih: "i + 1 \<le> j \<and> j < length video_shots \<and> t < end_time (video_shots ! j) \<and>
        (\<forall>k. i + 1 \<le> k \<and> k < j \<longrightarrow> end_time (video_shots ! k) \<le> t)"
      by blast
    have "\<And>k. i \<le> k \<Longrightarrow> k < j \<Longrightarrow> end_time (video_shots ! k) \<le> t"
    proof -
      fix k assume "i \<le> k" "k < j"
      then consider "k = i" | "i + 1 \<le> k" by linarith
      then show "end_time (video_shots ! k) \<le> t"
        using True ih \<open>k < j\<close> by cases auto
    qed
    with ih show ?thesis by auto
  next
    case False
    then show ?thesis
      using "1.prems" by (auto simp: skip_shots_le.simps [of video_shots t i] split: if_splits)
  qed
qed

lemma skip_shots_lt_Inr:
  "skip_shots_lt video_shots t i = Inr j \<Longrightarrow>
     i \<le> j \<and> j < length video_shots \<and> t \<le> end_time (video_shots ! j) \<and>
     (\<forall>k. i \<le> k \<and> k < j \<longrightarrow> end_time (video_shots ! k) < t)"
proof (induction video_shots t i rule: skip_shots_lt.induct)
  case (1 video_shots t i)
  show ?case
  proof (cases "i < length video_shots \<and> end_time (video_shots ! i) < t")
    case True
    then have "skip_shots_lt video_shots t (i + 1) = Inr j"
      using "1.prems" by (simp add: skip_shots_lt.simps [of video_shots t i])
    with True "1.IH" have ih: "i + 1 \<le> j \<and> j < length video_shots \<and> t \<le> end_time (video_shots ! j) \<and>
        (\<forall>k. i + 1 \<le> k \<and> k < j \<longrightarrow> end_time (video_shots ! k) < t)"
      by blast
    have "\<And>k. i \<le> k \<Longrightarrow> k < j \<Longrightarrow> end_time (video_shots ! k) < t"
    proof -
      fix k assume "i \<le> k" "k < j"
      then consider "k = i" | "i + 1 \<le> k" by linarith
      then show "end_time (video_shots ! k) < t"
        using True ih \<open>k < j\<close> by cases auto
    qed
    with ih show ?thesis by auto
  next
    case False
    then show ?thesis
      using "1.prems" by (auto simp: skip_shots_lt.simps [of video_shots t i] split: if_splits)
  qed
qed

lemma previous_word_loop_spec:
  "word_index \<le> previous_word_loop words t word_index \<and>
   (\<forall>j. word_index < j \<and> j \<le> previous_word_loop words t word_index \<longrightarrow>
        j + 1 < length words \<and> endTime (words ! j) < t) \<and>
   \<not> (int (previous_word_loop words t word_index) + 1 < int (length words) - 1 \<and>
      endTime (words ! (previous_word_loop words t word_index + 1)) < t)"
proof (induction words t word_index rule: previous_word_loop.induct)
  case (1 words t i)
  show ?case
  proof (cases "int i + 1 < int (length words) - 1 \<and> endTime (words ! (i + 1)) < t")
    case True
    then have eq: "previous_word_loop words t i = previous_word_loop words t (i + 1)"
      by (simp add: previous_word_loop.simps [of words t i])
    note ih = "1.IH" [OF True]
    have "\<And>j. i < j \<Longrightarrow> j \<le> previous_word_loop words t (i + 1) \<Longrightarrow>
        j + 1 < length words \<and> endTime (words ! j) < t"
    proof -
      fix j assume "i < j" "j \<le> previous_word_loop words t (i + 1)"
      then consider "j = i + 1" | "i + 1 < j" by linarith
      then show "j + 1 < length words \<and> endTime (words ! j) < t"
      proof cases
        case 1 with True show ?thesis by auto
      next
        case 2 with ih \<open>j \<le> previous_word_loop words t (i + 1)\<close> show ?thesis by blast
      qed
    qed
    with ih eq show ?thesis by auto
  next
    case False
    then have "previous_word_loop words t i = i"
      by (subst previous_word_loop.simps) auto
    with False show ?thesis by auto
  qed
qed

lemma next_word_loop_spec:
  "word_index \<le> next_word_loop words t word_index \<and>
   (\<forall>j. word_index \<le> j \<and> j < next_word_loop words t word_index \<longrightarrow>
        j + 2 < length words \<and> startTime (words ! j) < t) \<and>
   \<not> (int (next_word_loop words t word_index) < int (length words) - 2 \<and>
      startTime (words ! (next_word_loop words t word_index)) < t)"
proof (induction words t word_index rule: next_word_loop.induct)
  case (1 words t i)
  show ?case
  proof (cases "int i < int (length words) - 2 \<and> startTime (words ! i) < t")
    case True
    then have eq: "next_word_loop words t i = next_word_loop words t (i + 1)"
      by (simp add: next_word_loop.simps [of words t i])
    note ih = "1.IH" [OF True]
    have "\<And>j. i \<le> j \<Longrightarrow> j < next_word_loop words t (i + 1) \<Longrightarrow>
        j + 2 < length words \<and> startTime (words ! j) < t"
    proof -
      fix j assume "i \<le> j" "j < next_word_loop words t (i + 1)"
      then consider "j = i" | "i + 1 \<le> j" by linarith
      then show "j + 2 < length words \<and> startTime (words ! j) < t"
      proof cases
        case 1 with True show ?thesis by auto
      next
        case 2 with ih \<open>j < next_word_loop words t (i + 1)\<close> show ?thesis by blast
      qed
    qed
    with ih eq show ?thesis by auto
  next
    case False
    then have "next_word_loop words t i = i"
      by (subst next_word_loop.simps) auto
    with False show ?thesis by auto
  qed
qed

text \<open>Each loop stops at the first index at which its condition fails.\<close>

lemma skip_shots_le_first:
  "first_from i j (\<lambda>k. t < end_time (video_shots ! k)) \<Longrightarrow> j < length video_shots \<Longrightarrow>
   skip_shots_le video_shots t i = Inr j"
proof (induction video_shots t i rule: skip_shots_le.induct)
  case (1 video_shots t i)
  from "1.prems" have ij: "i \<le> j" and stop: "t < end_time (video_shots ! j)"
    and before: "\<And>k. i \<le> k \<Longrightarrow> k < j \<Longrightarrow> end_time (video_shots ! k) \<le> t"
    by (auto simp: first_from_def not_less)
  from ij "1.prems"(2) have il: "i < length video_shots" by simp
  show ?case
  proof (cases "end_time (video_shots ! i) \<le> t")
    case True
    with stop have "i \<noteq> j" by auto
    with ij have "i + 1 \<le> j" by simp
    with stop before have "first_from (i + 1) j (\<lambda>k. t < end_time (video_shots ! k))"
      by (auto simp: first_from_def not_less)
    from "1.IH" [OF il True this "1.prems"(2)] il True show ?thesis
      by (subst skip_shots_le.simps) simp
  next
    case False
    with before [of i] ij have "i = j" by (cases "i < j") auto
    with il False show ?thesis by (subst skip_shots_le.simps) simp
  qed
qed

lemma skip_shots_lt_first:
  "first_from i j (\<lambda>k. t \<le> end_time (video_shots ! k)) \<Longrightarrow> j < length video_shots \<Longrightarrow>
   skip_shots_lt video_shots t i = Inr j"
proof (induction video_shots t i rule: skip_shots_lt.induct)
  case (1 video_shots t i)
  from "1.prems" have ij: "i \<le> j" and stop: "t \<le> end_time (video_shots ! j)"
    and before: "\<And>k. i \<le> k \<Longrightarrow> k < j \<Longrightarrow> end_time (video_shots ! k) < t"
    by (auto simp: first_from_def not_le)
  from ij "1.prems"(2) have il: "i < length video_shots" by simp
  show ?case
  proof (cases "end_time (video_shots ! i) < t")
    case True
    with stop have "i \<noteq> j" by auto
    with ij have "i + 1 \<le> j" by simp
    with stop before have "first_from (i + 1) j (\<lambda>k. t \<le> end_time (video_shots ! k))"
      by (auto simp: first_from_def not_le)
    from "1.IH" [OF il True this "1.prems"(2)] il True show ?thesis
      by (subst skip_shots_lt.simps) simp
  next
    case False
    with before [of i] ij have "i = j" by (cases "i < j") auto
    with il False show ?thesis by (subst skip_shots_lt.simps) simp
  qed
qed

lemma skip_shots_le_Inr_first:
  "skip_shots_le video_shots t i = Inr j \<Longrightarrow>
   first_from i j (\<lambda>k. t < end_time (video_shots ! k)) \<and> j < length video_shots"
  using skip_shots_le_Inr [of video_shots t i j] by (auto simp: first_from_def not_less)

lemma skip_shots_lt_Inr_first:
  "skip_shots_lt video_shots t i = Inr j \<Longrightarrow>
   first_from i j (\<lambda>k. t \<le> end_time (video_shots ! k)) \<and> j < length video_shots"
  using skip_shots_lt_Inr [of video_shots t i j] by (auto simp: first_from_def not_le)

lemma previous_word_loop_first:
  "first_from word_index (previous_word_loop words t word_index)
     (\<lambda>k. \<not> (k + 2 < length words \<and> endTime (words ! (k + 1)) < t))"
proof -
  note wl = previous_word_loop_spec [of word_index words t]
  have "k + 2 < length words \<and> endTime (words ! (k + 1)) < t"
    if "word_index \<le> k" "k < previous_word_loop words t word_index" for k
  proof -
    from that have "word_index < k + 1 \<and> k + 1 \<le> previous_word_loop words t word_index" by simp
    with wl have "k + 1 + 1 < length words \<and> endTime (words ! (k + 1)) < t" by blast
    then show ?thesis by simp
  qed
  moreover from wl have "\<not> (previous_word_loop words t word_index + 2 < length words \<and>
      endTime (words ! (previous_word_loop words t word_index + 1)) < t)" by auto
  ultimately show ?thesis using wl by (simp add: first_from_def)
qed

lemma next_word_loop_first:
  "first_from word_index (next_word_loop words t word_index)
     (\<lambda>k. \<not> (k + 2 < length words \<and> startTime (words ! k) < t))"
proof -
  note wl = next_word_loop_spec [of word_index words t]
  from wl have "\<not> (next_word_loop words t word_index + 2 < length words \<and>
      startTime (words ! (next_word_loop words t word_index)) < t)" by auto
  with wl show ?thesis by (simp add: first_from_def)
qed

lemma previous_word_loop_in_range:
  "word_index < length words \<Longrightarrow> previous_word_loop words t word_index < length words"
proof -
  assume a: "word_index < length words"
  note wl = previous_word_loop_spec [of word_index words t]
  show ?thesis
  proof (cases "previous_word_loop words t word_index = word_index")
    case True with a show ?thesis by simp
  next
    case False
    with wl have "word_index < previous_word_loop words t word_index" by simp
    with wl have "previous_word_loop words t word_index + 1 < length words" by blast
    then show ?thesis by simp
  qed
qed

lemma next_word_loop_in_range:
  "word_index < length words \<Longrightarrow> next_word_loop words t word_index < length words"
proof -
  assume a: "word_index < length words"
  note wl = next_word_loop_spec [of word_index words t]
  show ?thesis
  proof (cases "next_word_loop words t word_index")
    case 0 with a show ?thesis by auto
  next
    case (Suc k)
    show ?thesis
    proof (cases "next_word_loop words t word_index = word_index")
      case True with a show ?thesis by simp
    next
      case False
      with wl Suc have "word_index \<le> k \<and> k < next_word_loop words t word_index" by simp
      with wl have "k + 2 < length words" by blast
      with Suc show ?thesis by simp
    qed
  qed
qed

lemma first_from_exists:
  assumes "i \<le> n" and "stop n"
  shows "\<exists>j. first_from i j stop \<and> j \<le> n"
proof -
  define j where "j = (LEAST k. i \<le> k \<and> stop k)"
  from assms have ex: "i \<le> n \<and> stop n" by simp
  from LeastI [of "\<lambda>k. i \<le> k \<and> stop k", OF ex] have a: "i \<le> j \<and> stop j" by (simp add: j_def)
  have b: "\<not> stop k" if "i \<le> k" "k < j" for k
    using not_less_Least [of k "\<lambda>k. i \<le> k \<and> stop k"] that by (auto simp: j_def)
  from Least_le [of "\<lambda>k. i \<le> k \<and> stop k", OF ex] have "j \<le> n" by (simp add: j_def)
  with a b show ?thesis by (auto simp: first_from_def)
qed

lemma adjust_start_Inr:
  assumes "adjust_start video_shots words shot_index word_index s = Inr (si, wi, new_start)"
  shows "skip_shots_le video_shots s shot_index = Inr si"
    and "wi = previous_word_loop words s word_index"
    and "wi < length words"
    and "new_start = (if startTime (words ! wi) \<noteq> s
                      then max (endTime (words ! wi)) (min s (start_time (video_shots ! si)))
                      else min s (start_time (video_shots ! si)))"
  using assms
  by (auto simp: adjust_start_def item_def Let_def split: sum.splits if_splits)

lemma adjust_end_Inr:
  assumes "adjust_end video_shots words shot_index word_index e = Inr (si, wi, new_end)"
  shows "skip_shots_lt video_shots e shot_index = Inr si"
    and "wi = next_word_loop words e word_index"
    and "wi < length words"
    and "new_end = (if endTime (words ! wi) \<noteq> e
                    then min (max e (end_time (video_shots ! si))) (startTime (words ! wi))
                    else max e (end_time (video_shots ! si)))"
  using assms
  by (auto simp: adjust_end_def item_def Let_def split: sum.splits if_splits)

lemma adjust_line_Inr:
  assumes "adjust_line video_shots words cursors line = Inr (cursors', line')"
  obtains si1 wi1 new_start new_end where
    "adjust_start video_shots words (fst cursors) (snd cursors) (startTime line) = Inr (si1, wi1, new_start)"
    "adjust_end video_shots words si1 wi1 (endTime line) = Inr (fst cursors', snd cursors', new_end)"
    "line' = line\<lparr>startTime := new_start, endTime := new_end, duration := Some (new_end - new_start)\<rparr>"
  using assms
  by (auto simp: adjust_line_def split: sum.splits prod.splits)

section \<open>The start of a line (lines 74-86)\<close>




lemma match_loop_Cons_Inr:
  assumes "match_loop video_shots words cursors (line # rest) = Inr out"
  obtains cursors' line' rest' where
    "adjust_line video_shots words cursors line = Inr (cursors', line')"
    "match_loop video_shots words cursors' rest = Inr rest'"
    "out = line' # rest'"
  using assms by (auto split: sum.splits prod.splits)

lemma cursor_trace_Cons:
  assumes "adjust_start video_shots words (fst cursors) (snd cursors) (startTime line) = Inr (si1, wi1, new_start)"
    and "adjust_end video_shots words si1 wi1 (endTime line) = Inr (si2, wi2, new_end)"
  shows "cursor_trace video_shots words cursors (line # rest) =
         (si1, wi1, si2, wi2) # cursor_trace video_shots words (si2, wi2) rest"
  using assms by simp

lemma cursor_trace_Inl:
  assumes "adjust_line video_shots words cursors line = Inl e"
  shows "cursor_trace video_shots words cursors (line # rest) = []"
  using assms by (auto simp: adjust_line_def split: sum.splits prod.splits)

declare cursor_trace.simps(2) [simp del] match_loop.simps(2) [simp del]

text \<open>Every line of a successful run, with the cursors it was processed at.\<close>

lemma match_loop_nth:
  "match_loop video_shots words cursors transcript = Inr out \<Longrightarrow> i < length transcript \<Longrightarrow>
   \<exists>si wi si1 wi1 si2 wi2 new_start new_end.
     cursor_trace video_shots words cursors transcript ! i = (si1, wi1, si2, wi2) \<and>
     adjust_start video_shots words si wi (startTime (transcript ! i)) = Inr (si1, wi1, new_start) \<and>
     adjust_end video_shots words si1 wi1 (endTime (transcript ! i)) = Inr (si2, wi2, new_end) \<and>
     out ! i = (transcript ! i)\<lparr>startTime := new_start, endTime := new_end,
                                 duration := Some (new_end - new_start)\<rparr>"
proof (induction transcript arbitrary: cursors out i)
  case Nil
  then show ?case by simp
next
  case (Cons line rest)
  from Cons.prems(1) obtain cursors' line' rest' where
    a: "adjust_line video_shots words cursors line = Inr (cursors', line')"
    and m: "match_loop video_shots words cursors' rest = Inr rest'"
    and o: "out = line' # rest'"
    by (rule match_loop_Cons_Inr)
  from a obtain si1 wi1 new_start new_end where
    s: "adjust_start video_shots words (fst cursors) (snd cursors) (startTime line) = Inr (si1, wi1, new_start)"
    and e: "adjust_end video_shots words si1 wi1 (endTime line) = Inr (fst cursors', snd cursors', new_end)"
    and l: "line' = line\<lparr>startTime := new_start, endTime := new_end, duration := Some (new_end - new_start)\<rparr>"
    by (rule adjust_line_Inr)
  have t: "cursor_trace video_shots words cursors (line # rest) =
         (si1, wi1, fst cursors', snd cursors') # cursor_trace video_shots words cursors' rest"
    using cursor_trace_Cons [OF s e, of rest] by simp
  show ?case
  proof (cases i)
    case 0
    have "cursor_trace video_shots words cursors (line # rest) ! 0 = (si1, wi1, fst cursors', snd cursors') \<and>
      adjust_start video_shots words (fst cursors) (snd cursors) (startTime ((line # rest) ! 0)) =
        Inr (si1, wi1, new_start) \<and>
      adjust_end video_shots words si1 wi1 (endTime ((line # rest) ! 0)) =
        Inr (fst cursors', snd cursors', new_end) \<and>
      out ! 0 = ((line # rest) ! 0)\<lparr>startTime := new_start, endTime := new_end,
                                 duration := Some (new_end - new_start)\<rparr>"
      using s e l t o by simp
    then show ?thesis unfolding 0 by blast
  next
    case (Suc k)
    with Cons.prems(2) have "k < length rest" by simp
    from Cons.IH [OF m this] Suc t o show ?thesis by simp
  qed
qed

lemma match_loop_length:
  "match_loop video_shots words cursors transcript = Inr out \<Longrightarrow> length out = length transcript"
proof (induction transcript arbitrary: cursors out)
  case Nil
  then show ?case by simp
next
  case (Cons line rest)
  from Cons.prems obtain cursors' line' rest' where
    m: "match_loop video_shots words cursors' rest = Inr rest'"
    and o: "out = line' # rest'"
    by (rule match_loop_Cons_Inr)
  from Cons.IH [OF m] o show ?case by simp
qed

section \<open>Snapping of the two boundaries\<close>

lemma adjust_line_covered:
  assumes "fst cursors < length video_shots" and "snd cursors < length words"
    and "startTime line < end_time (last video_shots)"
    and "endTime line \<le> end_time (last video_shots)"
  shows "\<exists>cursors' line'. adjust_line video_shots words cursors line = Inr (cursors', line') \<and>
           fst cursors' < length video_shots \<and> snd cursors' < length words"
proof -
  let ?n = "length video_shots - 1"
  from assms(1) have ne: "video_shots \<noteq> []" by auto
  then have l: "last video_shots = video_shots ! ?n" by (rule last_conv_nth)
  from assms(1) have n: "fst cursors \<le> ?n" "?n < length video_shots" by simp_all
  from first_from_exists [of "fst cursors" ?n "\<lambda>k. startTime line < end_time (video_shots ! k)"]
    n assms(3) l
  obtain j1 where j1: "first_from (fst cursors) j1 (\<lambda>k. startTime line < end_time (video_shots ! k))"
    "j1 \<le> ?n" by auto
  then have j1l: "j1 < length video_shots" using n by simp
  from first_from_exists [of j1 ?n "\<lambda>k. endTime line \<le> end_time (video_shots ! k)"]
    j1(2) assms(4) l
  obtain j2 where j2: "first_from j1 j2 (\<lambda>k. endTime line \<le> end_time (video_shots ! k))"
    "j2 \<le> ?n" by auto
  then have j2l: "j2 < length video_shots" using n by simp
  let ?w1 = "previous_word_loop words (startTime line) (snd cursors)"
  let ?w2 = "next_word_loop words (endTime line) ?w1"
  have w1: "?w1 < length words" using assms(2) by (rule previous_word_loop_in_range)
  have w2: "?w2 < length words" using w1 by (rule next_word_loop_in_range)
  show ?thesis
    using skip_shots_le_first [OF j1(1) j1l] skip_shots_lt_first [OF j2(1) j2l] w1 w2 j2l
    by (simp add: adjust_line_def adjust_start_def adjust_end_def item_def Let_def)
qed

lemma match_loop_covered:
  "fst cursors < length video_shots \<Longrightarrow> snd cursors < length words \<Longrightarrow>
   list_all (\<lambda>l. startTime l < end_time (last video_shots) \<and>
                  endTime l \<le> end_time (last video_shots)) transcript \<Longrightarrow>
   \<exists>out. match_loop video_shots words cursors transcript = Inr out"
proof (induction transcript arbitrary: cursors)
  case Nil
  then show ?case by simp
next
  case (Cons line rest)
  from Cons.prems(3) have c: "startTime line < end_time (last video_shots)"
    "endTime line \<le> end_time (last video_shots)"
    and r: "list_all (\<lambda>l. startTime l < end_time (last video_shots) \<and>
                  endTime l \<le> end_time (last video_shots)) rest" by simp_all
  from adjust_line_covered [OF Cons.prems(1,2) c]
  obtain cursors' line' where a: "adjust_line video_shots words cursors line = Inr (cursors', line')"
    "fst cursors' < length video_shots" "snd cursors' < length words" by blast
  from Cons.IH [OF a(2,3) r] obtain rest' where
    "match_loop video_shots words cursors' rest = Inr rest'" by blast
  with a(1) show ?case by (simp add: match_loop.simps)
qed

lemma match_loop_nth_cursors:
  "match_loop video_shots words cursors transcript = Inr out \<Longrightarrow> i < length transcript \<Longrightarrow>
   \<exists>si wi si1 wi1 si2 wi2 new_start new_end.
     (si, wi) = (if i = 0 then cursors
                 else (case cursor_trace video_shots words cursors transcript ! (i - 1) of
                         (s1, w1, s2, w2) \<Rightarrow> (s2, w2))) \<and>
     cursor_trace video_shots words cursors transcript ! i = (si1, wi1, si2, wi2) \<and>
     adjust_start video_shots words si wi (startTime (transcript ! i)) = Inr (si1, wi1, new_start) \<and>
     adjust_end video_shots words si1 wi1 (endTime (transcript ! i)) = Inr (si2, wi2, new_end) \<and>
     out ! i = (transcript ! i)\<lparr>startTime := new_start, endTime := new_end,
                                 duration := Some (new_end - new_start)\<rparr>"
proof (induction transcript arbitrary: cursors out i)
  case Nil
  then show ?case by simp
next
  case (Cons line rest)
  from Cons.prems(1) obtain cursors' line' rest' where
    a: "adjust_line video_shots words cursors line = Inr (cursors', line')"
    and m: "match_loop video_shots words cursors' rest = Inr rest'"
    and o: "out = line' # rest'"
    by (rule match_loop_Cons_Inr)
  from a obtain si1 wi1 new_start new_end where
    s: "adjust_start video_shots words (fst cursors) (snd cursors) (startTime line) = Inr (si1, wi1, new_start)"
    and e: "adjust_end video_shots words si1 wi1 (endTime line) = Inr (fst cursors', snd cursors', new_end)"
    and l: "line' = line\<lparr>startTime := new_start, endTime := new_end, duration := Some (new_end - new_start)\<rparr>"
    by (rule adjust_line_Inr)
  have t: "cursor_trace video_shots words cursors (line # rest) =
         (si1, wi1, fst cursors', snd cursors') # cursor_trace video_shots words cursors' rest"
    using cursor_trace_Cons [OF s e, of rest] by simp
  show ?case
  proof (cases i)
    case 0
    have "(fst cursors, snd cursors) = (if (0::nat) = 0 then cursors
                 else (case cursor_trace video_shots words cursors (line # rest) ! (0 - 1) of
                         (s1, w1, s2, w2) \<Rightarrow> (s2, w2))) \<and>
      cursor_trace video_shots words cursors (line # rest) ! 0 = (si1, wi1, fst cursors', snd cursors') \<and>
      adjust_start video_shots words (fst cursors) (snd cursors) (startTime ((line # rest) ! 0)) =
        Inr (si1, wi1, new_start) \<and>
      adjust_end video_shots words si1 wi1 (endTime ((line # rest) ! 0)) =
        Inr (fst cursors', snd cursors', new_end) \<and>
      out ! 0 = ((line # rest) ! 0)\<lparr>startTime := new_start, endTime := new_end,
                                 duration := Some (new_end - new_start)\<rparr>"
      using s e l t o by simp
    then show ?thesis unfolding 0 by blast
  next
    case (Suc k)
    with Cons.prems(2) have k: "k < length rest" by simp
    from Cons.IH [OF m k] obtain si wi sj1 wj1 sj2 wj2 ns ne where
      ih: "(si, wi) = (if k = 0 then cursors'
                 else (case cursor_trace video_shots words cursors' rest ! (k - 1) of
                         (s1, w1, s2, w2) \<Rightarrow> (s2, w2)))"
      "cursor_trace video_shots words cursors' rest ! k = (sj1, wj1, sj2, wj2)"
      "adjust_start video_shots words si wi (startTime (rest ! k)) = Inr (sj1, wj1, ns)"
      "adjust_end video_shots words sj1 wj1 (endTime (rest ! k)) = Inr (sj2, wj2, ne)"
      "rest' ! k = (rest ! k)\<lparr>startTime := ns, endTime := ne, duration := Some (ne - ns)\<rparr>"
      by blast
    have c: "(si, wi) = (if Suc k = 0 then cursors
                 else (case cursor_trace video_shots words cursors (line # rest) ! (Suc k - 1) of
                         (s1, w1, s2, w2) \<Rightarrow> (s2, w2)))"
    proof (cases k)
      case 0 with ih(1) t show ?thesis by simp
    next
      case (Suc k') with ih(1) t show ?thesis by simp
    qed
    have "(si, wi) = (if Suc k = 0 then cursors
                 else (case cursor_trace video_shots words cursors (line # rest) ! (Suc k - 1) of
                         (s1, w1, s2, w2) \<Rightarrow> (s2, w2))) \<and>
      cursor_trace video_shots words cursors (line # rest) ! Suc k = (sj1, wj1, sj2, wj2) \<and>
      adjust_start video_shots words si wi (startTime ((line # rest) ! Suc k)) = Inr (sj1, wj1, ns) \<and>
      adjust_end video_shots words sj1 wj1 (endTime ((line # rest) ! Suc k)) = Inr (sj2, wj2, ne) \<and>
      out ! Suc k = ((line # rest) ! Suc k)\<lparr>startTime := ns, endTime := ne,
                                 duration := Some (ne - ns)\<rparr>"
      using c ih t o by simp
    then show ?thesis unfolding Suc by blast
  qed
qed

text \<open>
  C3, as amended. When the shots cover the lines and there is a word, the aligner returns
  a line for every line. For the \<open>i\<close>-th line, from \<open>a\<close> to \<open>b\<close>: the shot of its start is
  the first shot from the cursor on that ends after \<open>a\<close>, and the tentative start
  \<open>min a shot.start\<close> is at most \<open>a\<close>; \<^verbatim>\<open>previous_word\<close> is the word under the word cursor,
  advanced while the next word ends before \<open>a\<close>. When \<^verbatim>\<open>previous_word\<close> starts at \<open>a\<close> the
  adjusted start is the tentative start. When it does not (the clamp applies), the adjusted
  start is the larger of the tentative start and the end of \<^verbatim>\<open>previous_word\<close>: it is never
  earlier than that end, and it is that end or the tentative start, which is in general
  neither that end nor the original start. Symmetrically for the end, with the first shot
  from the cursor on that does not end before \<open>b\<close>, the tentative end
  \<open>max b shot.end\<close> and the start of \<^verbatim>\<open>next_word\<close>.
\<close>

theorem snapping_of_covered_segments:
  assumes "covered_by_shots video_shots transcript" and "words \<noteq> []"
    and "i < length transcript"
    and "cursors_before video_shots words transcript i = (si, wi)"
    and "cursor_trace video_shots words (0, 0) transcript ! i = (j1, w1, j2, w2)"
    and "a = startTime (transcript ! i)" and "b = endTime (transcript ! i)"
    and "tentative_start = min a (start_time (video_shots ! j1))"
    and "tentative_end = max b (end_time (video_shots ! j2))"
    and "previous_word = words ! w1" and "next_word = words ! w2"
  shows "\<exists>out. match_with_video_shots video_shots transcript words = Inr out \<and>
           length out = length transcript \<and>
           first_from si j1 (\<lambda>k. a < end_time (video_shots ! k)) \<and>
           first_from wi w1 (\<lambda>k. \<not> (k + 2 < length words \<and> endTime (words ! (k + 1)) < a)) \<and>
           first_from j1 j2 (\<lambda>k. b \<le> end_time (video_shots ! k)) \<and>
           first_from w1 w2 (\<lambda>k. \<not> (k + 2 < length words \<and> startTime (words ! k) < b)) \<and>
           startTime (out ! i) =
             (if startTime previous_word \<noteq> a then max (endTime previous_word) tentative_start
              else tentative_start) \<and>
           endTime (out ! i) =
             (if endTime next_word \<noteq> b then min tentative_end (startTime next_word)
              else tentative_end) \<and>
           tentative_start \<le> a \<and> b \<le> tentative_end \<and>
           (startTime previous_word = a \<longrightarrow> startTime (out ! i) \<le> a) \<and>
           (startTime previous_word \<noteq> a \<longrightarrow>
              endTime previous_word \<le> startTime (out ! i) \<and>
              (startTime (out ! i) = endTime previous_word \<or>
               startTime (out ! i) = tentative_start)) \<and>
           (endTime next_word = b \<longrightarrow> b \<le> endTime (out ! i)) \<and>
           (endTime next_word \<noteq> b \<longrightarrow>
              endTime (out ! i) \<le> startTime next_word \<and>
              (endTime (out ! i) = startTime next_word \<or> endTime (out ! i) = tentative_end))"
proof -
  from assms(1) have ne: "video_shots \<noteq> []"
    and cov: "list_all (\<lambda>l. startTime l < end_time (last video_shots) \<and>
                  endTime l \<le> end_time (last video_shots)) transcript"
    by (simp_all add: covered_by_shots_def)
  from ne assms(2) have c0: "fst (0::nat, 0::nat) < length video_shots"
    "snd (0::nat, 0::nat) < length words" by simp_all
  from match_loop_covered [OF c0 cov] obtain out where
    run: "match_loop video_shots words (0, 0) transcript = Inr out" by blast
  from match_loop_nth_cursors [OF run assms(3)] assms(4,5)
  obtain new_start new_end where
    s: "adjust_start video_shots words si wi a = Inr (j1, w1, new_start)"
    and e: "adjust_end video_shots words j1 w1 b = Inr (j2, w2, new_end)"
    and o: "out ! i = (transcript ! i)\<lparr>startTime := new_start, endTime := new_end,
                                 duration := Some (new_end - new_start)\<rparr>"
    unfolding cursors_before_def assms(6,7) by (auto split: if_splits)
  note rs = adjust_start_Inr [OF s]
  note re = adjust_end_Inr [OF e]
  have f1: "first_from si j1 (\<lambda>k. a < end_time (video_shots ! k))"
    using skip_shots_le_Inr_first [OF rs(1)] by simp
  have f2: "first_from wi w1 (\<lambda>k. \<not> (k + 2 < length words \<and> endTime (words ! (k + 1)) < a))"
    unfolding rs(2) by (rule previous_word_loop_first)
  have f3: "first_from j1 j2 (\<lambda>k. b \<le> end_time (video_shots ! k))"
    using skip_shots_lt_Inr_first [OF re(1)] by simp
  have f4: "first_from w1 w2 (\<lambda>k. \<not> (k + 2 < length words \<and> startTime (words ! k) < b))"
    unfolding re(2) by (rule next_word_loop_first)
  have st: "startTime (out ! i) =
             (if startTime previous_word \<noteq> a then max (endTime previous_word) tentative_start
              else tentative_start)"
    using o rs(4) assms(8,10) by simp
  have en: "endTime (out ! i) =
             (if endTime next_word \<noteq> b then min tentative_end (startTime next_word)
              else tentative_end)"
    using o re(4) assms(9,11) by simp
  have t: "tentative_start \<le> a" "b \<le> tentative_end" using assms(8,9) by simp_all
  have len: "length out = length transcript" using run by (rule match_loop_length)
  have m1: "startTime previous_word = a \<longrightarrow> startTime (out ! i) \<le> a"
    using st t by simp
  have m2: "startTime previous_word \<noteq> a \<longrightarrow>
              endTime previous_word \<le> startTime (out ! i) \<and>
              (startTime (out ! i) = endTime previous_word \<or>
               startTime (out ! i) = tentative_start)"
    using st by (auto simp: max_def)
  have m3: "endTime next_word = b \<longrightarrow> b \<le> endTime (out ! i)"
    using en t by simp
  have m4: "endTime next_word \<noteq> b \<longrightarrow>
              endTime (out ! i) \<le> startTime next_word \<and>
              (endTime (out ! i) = startTime next_word \<or> endTime (out ! i) = tentative_end)"
    using en by (auto simp: min_def)
  from run len f1 f2 f3 f4 st en t m1 m2 m3 m4 show ?thesis
    unfolding match_with_video_shots_def by blast
qed

lemma ex_moving_run:
  "match_with_video_shots ex_two_shots [ex_clip ''c'' 3 4 None] ex_words =
     Inr [ex_clip ''c'' (5 / 2) 5 (Some (5 / 2))]"
  by code_simp

lemma ex_moving_trace:
  "cursor_trace ex_two_shots ex_words (0, 0) [ex_clip ''c'' 3 4 None] = [(1, 1, 1, 3)]"
  by code_simp

lemma ex_long_trace:
  "cursor_trace ex_two_shots ex_words (0, 0) [ex_clip ''b c'' 1 4 None] = [(0, 0, 1, 3)]"
  by code_simp

theorem snapping_of_covered_segments_witness:
  "covered_by_shots ex_two_shots [ex_clip ''c'' 3 4 None] \<and>
   match_with_video_shots ex_two_shots [ex_clip ''c'' 3 4 None] ex_words =
     Inr [ex_clip ''c'' (5 / 2) 5 (Some (5 / 2))] \<and>
   first_from 0 1 (\<lambda>k. 3 < end_time (ex_two_shots ! k)) \<and>
   first_from 0 1 (\<lambda>k. \<not> (k + 2 < length ex_words \<and> endTime (ex_words ! (k + 1)) < 3)) \<and>
   first_from 1 3 (\<lambda>k. \<not> (k + 2 < length ex_words \<and> startTime (ex_words ! k) < 4)) \<and>
   startTime (ex_words ! 1) \<noteq> 3 \<and>
   endTime (ex_words ! 1) \<le> startTime (ex_clip ''c'' (5 / 2) 5 (Some (5 / 2))) \<and>
   endTime (ex_words ! 3) \<noteq> 4 \<and>
   endTime (ex_clip ''c'' (5 / 2) 5 (Some (5 / 2))) \<le> startTime (ex_words ! 3) \<and>
   first_from 0 1 (\<lambda>k. 4 \<le> end_time (ex_two_shots ! k))"
proof -
  have c: "covered_by_shots ex_two_shots [ex_clip ''c'' 3 4 None]" by code_simp
  have w: "ex_words \<noteq> []" by (simp add: ex_words_def)
  have i: "0 < length [ex_clip ''c'' 3 4 None]" by simp
  have b: "cursors_before ex_two_shots ex_words [ex_clip ''c'' 3 4 None] 0 = (0, 0)"
    by (simp add: cursors_before_def)
  have t: "cursor_trace ex_two_shots ex_words (0, 0) [ex_clip ''c'' 3 4 None] ! 0 = (1, 1, 1, 3)"
    by (simp add: ex_moving_trace)
  have a: "3 = startTime ([ex_clip ''c'' 3 4 None] ! 0)" "4 = endTime ([ex_clip ''c'' 3 4 None] ! 0)"
    by (simp_all add: ex_clip_def)
  have g1: "startTime (ex_words ! 1) \<noteq> 3" by (simp add: ex_words_def)
  have g2: "endTime (ex_words ! 3) \<noteq> 4" by (simp add: ex_words_def)
  from snapping_of_covered_segments [OF c w i b t a refl refl refl refl] obtain out where
    o: "match_with_video_shots ex_two_shots [ex_clip ''c'' 3 4 None] ex_words = Inr out"
    and f: "first_from 0 1 (\<lambda>k. 3 < end_time (ex_two_shots ! k))"
      "first_from 0 1 (\<lambda>k. \<not> (k + 2 < length ex_words \<and> endTime (ex_words ! (k + 1)) < 3))"
      "first_from 1 3 (\<lambda>k. \<not> (k + 2 < length ex_words \<and> startTime (ex_words ! k) < 4))"
    and m: "startTime (ex_words ! 1) \<noteq> 3 \<longrightarrow> endTime (ex_words ! 1) \<le> startTime (out ! 0)"
      "endTime (ex_words ! 3) \<noteq> 4 \<longrightarrow> endTime (out ! 0) \<le> startTime (ex_words ! 3)"
    by blast
  from o ex_moving_run have out: "out = [ex_clip ''c'' (5 / 2) 5 (Some (5 / 2))]" by simp
  have c': "covered_by_shots ex_two_shots [ex_clip ''b c'' 1 4 None]" by code_simp
  have i': "0 < length [ex_clip ''b c'' 1 4 None]" by simp
  have b': "cursors_before ex_two_shots ex_words [ex_clip ''b c'' 1 4 None] 0 = (0, 0)"
    by (simp add: cursors_before_def)
  have t': "cursor_trace ex_two_shots ex_words (0, 0) [ex_clip ''b c'' 1 4 None] ! 0 = (0, 0, 1, 3)"
    by (simp add: ex_long_trace)
  have a': "1 = startTime ([ex_clip ''b c'' 1 4 None] ! 0)" "4 = endTime ([ex_clip ''b c'' 1 4 None] ! 0)"
    by (simp_all add: ex_clip_def)
  from snapping_of_covered_segments [OF c' w i' b' t' a' refl refl refl refl]
  have f': "first_from 0 1 (\<lambda>k. 4 \<le> end_time (ex_two_shots ! k))" by blast
  from m g1 g2 out have "endTime (ex_words ! 1) \<le> startTime (ex_clip ''c'' (5 / 2) 5 (Some (5 / 2)))"
    "endTime (ex_clip ''c'' (5 / 2) 5 (Some (5 / 2))) \<le> startTime (ex_words ! 3)" by simp_all
  with c ex_moving_run f g1 g2 f' show ?thesis by blast
qed

text \<open>
  The claim as the specification states it fails on one line, the third word, under two
  shots of which the second starts at \<open>5/2\<close>: the word under the cursor is the second word,
  which does not start at the line's start \<open>3\<close>, so the clamp applies, and the adjusted
  start is \<open>5/2\<close>, the start of the shot: neither the end \<open>2\<close> of that word nor the original
  start.
\<close>

theorem clamped_start_counterexample:
  "match_with_video_shots ex_two_shots [ex_clip ''c'' 3 4 None] ex_words =
     Inr [ex_clip ''c'' (5 / 2) 5 (Some (5 / 2))] \<and>
   cursor_trace ex_two_shots ex_words (0, 0) [ex_clip ''c'' 3 4 None] = [(1, 1, 1, 3)] \<and>
   startTime (ex_words ! 1) \<noteq> startTime (ex_clip ''c'' 3 4 None) \<and>
   startTime (ex_clip ''c'' (5 / 2) 5 (Some (5 / 2))) \<noteq> endTime (ex_words ! 1) \<and>
   startTime (ex_clip ''c'' (5 / 2) 5 (Some (5 / 2))) \<noteq> startTime (ex_clip ''c'' 3 4 None)"
proof -
  have "startTime (ex_words ! 1) \<noteq> startTime (ex_clip ''c'' 3 4 None)"
    "startTime (ex_clip ''c'' (5 / 2) 5 (Some (5 / 2))) \<noteq> endTime (ex_words ! 1)"
    "startTime (ex_clip ''c'' (5 / 2) 5 (Some (5 / 2))) \<noteq> startTime (ex_clip ''c'' 3 4 None)"
    by (simp_all add: ex_words_def ex_clip_def)
  with ex_moving_run ex_moving_trace show ?thesis by blast
qed

section \<open>The word cursor\<close>

lemma previous_word_loop_bound:
  "int word_index \<le> max 0 (int (length words) - 2) \<Longrightarrow>
   int (previous_word_loop words t word_index) \<le> max 0 (int (length words) - 2)"
proof -
  assume b: "int word_index \<le> max 0 (int (length words) - 2)"
  note wl = previous_word_loop_spec [of word_index words t]
  show ?thesis
  proof (cases "previous_word_loop words t word_index = word_index")
    case True with b show ?thesis by simp
  next
    case False
    with wl have "word_index < previous_word_loop words t word_index" by simp
    with wl have "previous_word_loop words t word_index + 1 < length words" by blast
    then show ?thesis by simp
  qed
qed

lemma next_word_loop_bound:
  "int word_index \<le> max 0 (int (length words) - 2) \<Longrightarrow>
   int (next_word_loop words t word_index) \<le> max 0 (int (length words) - 2)"
proof -
  assume b: "int word_index \<le> max 0 (int (length words) - 2)"
  note wl = next_word_loop_spec [of word_index words t]
  show ?thesis
  proof (cases "next_word_loop words t word_index")
    case 0 then show ?thesis by simp
  next
    case (Suc k)
    show ?thesis
    proof (cases "next_word_loop words t word_index = word_index")
      case True with b show ?thesis by simp
    next
      case False
      with wl have "word_index \<le> k \<and> k < next_word_loop words t word_index"
        using Suc by simp
      with wl have "k + 2 < length words" by blast
      with Suc show ?thesis by simp
    qed
  qed
qed

lemma cursor_trace_bound:
  "int (snd cursors) \<le> max 0 (int (length words) - 2) \<Longrightarrow>
   (si1, k, si2, m) \<in> set (cursor_trace video_shots words cursors transcript) \<Longrightarrow>
   int k \<le> max 0 (int (length words) - 2) \<and> int m \<le> max 0 (int (length words) - 2)"
proof (induction transcript arbitrary: cursors)
  case Nil
  then show ?case by simp
next
  case (Cons line rest)
  show ?case
  proof (cases "adjust_line video_shots words cursors line")
    case (Inl e)
    from Cons.prems(2) cursor_trace_Inl [OF Inl, of rest] show ?thesis by simp
  next
    case (Inr r)
    then obtain cursors' line' where a: "adjust_line video_shots words cursors line = Inr (cursors', line')"
      by (cases r) auto
    from a obtain s1 w1 new_start new_end where
      s: "adjust_start video_shots words (fst cursors) (snd cursors) (startTime line) = Inr (s1, w1, new_start)"
      and e: "adjust_end video_shots words s1 w1 (endTime line) = Inr (fst cursors', snd cursors', new_end)"
      by (rule adjust_line_Inr)
    have t: "cursor_trace video_shots words cursors (line # rest) =
         (s1, w1, fst cursors', snd cursors') # cursor_trace video_shots words cursors' rest"
      using cursor_trace_Cons [OF s e, of rest] by simp
    have b1: "int w1 \<le> max 0 (int (length words) - 2)"
      unfolding adjust_start_Inr(2) [OF s] using Cons.prems(1) by (rule previous_word_loop_bound)
    have b2: "int (snd cursors') \<le> max 0 (int (length words) - 2)"
      unfolding adjust_end_Inr(2) [OF e] using b1 by (rule next_word_loop_bound)
    from Cons.prems(2) [unfolded t] consider
      "k = w1 \<and> m = snd cursors'"
      | "(si1, k, si2, m) \<in> set (cursor_trace video_shots words cursors' rest)"
      by auto
    then show ?thesis
    proof cases
      case 1 with b1 b2 show ?thesis by simp
    next
      case 2 with Cons.IH [OF b2] show ?thesis by simp
    qed
  qed
qed

text \<open>
  C10. The word cursor never exceeds \<open>max 0 (len(words) - 2)\<close>: neither of its two loops
  takes it beyond that bound, and in a run of the aligner both the index of
  \<^verbatim>\<open>previous_word\<close> and the index of \<^verbatim>\<open>next_word\<close> of every line stay within it. With
  two words or more, neither is the index of the last word, so the last word's timestamps
  never clamp a boundary.
\<close>

theorem word_cursor_never_reaches_last_word:
  assumes "(si1, wi1, si2, wi2) \<in> set (cursor_trace video_shots words (0, 0) transcript)"
  shows "int wi1 \<le> max 0 (int (length words) - 2) \<and> int wi2 \<le> max 0 (int (length words) - 2) \<and>
         (2 \<le> length words \<longrightarrow> wi1 \<noteq> length words - 1 \<and> wi2 \<noteq> length words - 1) \<and>
         (\<forall>t word_index. int word_index \<le> max 0 (int (length words) - 2) \<longrightarrow>
            int (previous_word_loop words t word_index) \<le> max 0 (int (length words) - 2) \<and>
            int (next_word_loop words t word_index) \<le> max 0 (int (length words) - 2))"
proof -
  have "int (snd (0::nat, 0::nat)) \<le> max 0 (int (length words) - 2)" by simp
  from cursor_trace_bound [OF this assms]
  have b: "int wi1 \<le> max 0 (int (length words) - 2) \<and> int wi2 \<le> max 0 (int (length words) - 2)" .
  then have "2 \<le> length words \<longrightarrow> wi1 \<noteq> length words - 1 \<and> wi2 \<noteq> length words - 1"
    by auto
  with b previous_word_loop_bound next_word_loop_bound show ?thesis by blast
qed

theorem word_cursor_never_reaches_last_word_witness:
  "(0, 2, 0, 3) \<in> set (cursor_trace ex_shots ex_words (0, 0) ex_two) \<and>
   int 2 \<le> max 0 (int (length ex_words) - 2) \<and> int 3 \<le> max 0 (int (length ex_words) - 2) \<and>
   2 \<le> length ex_words \<and> (2::nat) \<noteq> length ex_words - 1 \<and> (3::nat) \<noteq> length ex_words - 1"
proof -
  have m: "(0, 2, 0, 3) \<in> set (cursor_trace ex_shots ex_words (0, 0) ex_two)"
    by (simp add: ex_two_trace)
  have l: "2 \<le> length ex_words" by code_simp
  from word_cursor_never_reaches_last_word [OF m] m l show ?thesis by blast
qed

section \<open>Aligned lines and the lines they come from\<close>

lemma words_in_order_nth:
  assumes "words_in_order words"
  shows "i < length words \<Longrightarrow> startTime (words ! i) \<le> endTime (words ! i)"
    and "i < j \<Longrightarrow> j < length words \<Longrightarrow> endTime (words ! i) \<le> startTime (words ! j)"
  using assms by (auto simp: words_in_order_def list_all_length sorted_wrt_iff_nth_less)

lemma on_word_boundaries_nth:
  assumes "on_word_boundaries words line"
  obtains p q where "p < length words" "startTime line = startTime (words ! p)"
    "q < length words" "int q \<le> max 0 (int (length words) - 2)" "endTime line = endTime (words ! q)"
proof -
  from assms obtain p where p: "p < length words" "startTime line = startTime (words ! p)"
    by (auto simp: on_word_boundaries_def in_set_conv_nth)
  from assms obtain q where q: "q < length (take (max 1 (length words - 1)) words)"
    "endTime line = endTime (take (max 1 (length words - 1)) words ! q)"
    by (auto simp: on_word_boundaries_def in_set_conv_nth simp del: length_take)
  from q(1) have q1: "q < length words" "q < max 1 (length words - 1)" by auto
  with q(2) have "endTime line = endTime (words ! q)" by simp
  moreover from q1 have "int q \<le> max 0 (int (length words) - 2)" by auto
  ultimately show thesis using p q1 that by blast
qed

lemma adjust_line_contains:
  assumes w: "words_in_order words"
    and ob: "on_word_boundaries words line"
    and le: "startTime line \<le> endTime line"
    and inv: "\<forall>i<snd cursors. startTime (words ! i) < startTime line"
    and run: "adjust_line video_shots words cursors line = Inr (cursors', line')"
  shows "startTime line' \<le> startTime line" and "endTime line \<le> endTime line'"
    and "\<forall>i<snd cursors'. startTime (words ! i) < endTime line"
proof -
  define a b wi where "a = startTime line" and "b = endTime line" and "wi = snd cursors"
  from run obtain si1 wi1 new_start new_end where
    s: "adjust_start video_shots words (fst cursors) wi a = Inr (si1, wi1, new_start)"
    and e: "adjust_end video_shots words si1 wi1 b = Inr (fst cursors', snd cursors', new_end)"
    and l: "line' = line\<lparr>startTime := new_start, endTime := new_end, duration := Some (new_end - new_start)\<rparr>"
    unfolding a_def b_def wi_def by (rule adjust_line_Inr)
  define wi2 where "wi2 = snd cursors'"
  note rs = adjust_start_Inr [OF s]
  note re = adjust_end_Inr [OF e, folded wi2_def]
  note pl = previous_word_loop_spec [of wi words a, folded rs(2)]
  note nl = next_word_loop_spec [of wi1 words b, folded re(2)]
  from ob obtain p q where p: "p < length words" "a = startTime (words ! p)"
    and q: "q < length words" "int q \<le> max 0 (int (length words) - 2)" "b = endTime (words ! q)"
    unfolding a_def b_def by (rule on_word_boundaries_nth)
  note W1 = words_in_order_nth(1) [OF w]
  note W2 = words_in_order_nth(2) [OF w]
  have inv': "\<And>i. i < wi \<Longrightarrow> startTime (words ! i) < a"
    using inv by (simp add: a_def wi_def)
  have g1: "endTime (words ! wi1) \<le> a" if ne: "startTime (words ! wi1) \<noteq> a"
  proof (cases "wi1 = wi")
    case True
    have "\<not> p < wi" using inv' [of p] p(2) by auto
    moreover have "p \<noteq> wi1" using ne p(2) by auto
    ultimately have "wi1 < p" using True by simp
    from W2 [OF this p(1)] p(2) show ?thesis by simp
  next
    case False
    with pl have "wi < wi1" by simp
    with pl have "endTime (words ! wi1) < a" by blast
    then show ?thesis by simp
  qed
  have "new_start \<le> a"
    using rs(4) g1 by (auto simp: max_def min_def)
  then show "startTime line' \<le> startTime line" using l by (simp add: a_def)
  have inv1: "startTime (words ! i) < a" if "i < wi1" for i
  proof (cases "i < wi")
    case True then show ?thesis by (rule inv')
  next
    case False
    with that have j: "wi < i + 1" "i + 1 \<le> wi1" by simp_all
    with pl have ej: "i + 1 + 1 < length words" "endTime (words ! (i + 1)) < a" by blast+
    have "startTime (words ! i) \<le> endTime (words ! i)" using W1 [of i] ej(1) by simp
    also have "\<dots> \<le> startTime (words ! (i + 1))" using W2 [of i "i + 1"] ej(1) by simp
    also have "\<dots> \<le> endTime (words ! (i + 1))" using W1 [of "i + 1"] ej(1) by simp
    finally show ?thesis using ej(2) by simp
  qed
  have g2: "b \<le> startTime (words ! wi2)" if ne: "endTime (words ! wi2) \<noteq> b"
  proof (rule ccontr)
    assume "\<not> b \<le> startTime (words ! wi2)"
    then have lt: "startTime (words ! wi2) < b" by simp
    with nl have far: "int (length words) - 2 \<le> int wi2" by auto
    have "q \<noteq> wi2" using ne q(3) by auto
    then consider "q < wi2" | "wi2 < q" by linarith
    then show False
    proof cases
      case 1
      from W2 [OF 1 re(3)] q(3) lt show False by simp
    next
      case 2
      with q(2) far show False by auto
    qed
  qed
  have "b \<le> new_end"
    using re(4) g2 by (auto simp: max_def min_def)
  then show "endTime line \<le> endTime line'" using l by (simp add: b_def)
  have "startTime (words ! i) < b" if "i < wi2" for i
  proof (cases "i < wi1")
    case True
    from inv1 [OF this] le show ?thesis by (simp add: a_def b_def)
  next
    case False
    with that nl show ?thesis by auto
  qed
  then show "\<forall>i<snd cursors'. startTime (words ! i) < endTime line"
    by (simp add: wi2_def b_def)
qed

lemma adjust_line_fields:
  assumes "adjust_line video_shots words cursors line = Inr (cursors', line')"
  shows "duration line' = Some (endTime line' - startTime line')" and "text' line' = text' line"
proof -
  from assms obtain new_start new_end where
    "line' = line\<lparr>startTime := new_start, endTime := new_end, duration := Some (new_end - new_start)\<rparr>"
    by (auto elim: adjust_line_Inr)
  then show "duration line' = Some (endTime line' - startTime line')" and "text' line' = text' line"
    by simp_all
qed

lemma match_loop_contains:
  assumes w: "words_in_order words"
  shows "lines_in_order transcript \<Longrightarrow> \<forall>l\<in>set transcript. on_word_boundaries words l \<Longrightarrow>
    \<forall>l\<in>set transcript. \<forall>i<snd cursors. startTime (words ! i) < startTime l \<Longrightarrow>
    match_loop video_shots words cursors transcript = Inr out \<Longrightarrow>
    list_all2 (\<lambda>l l'. startTime l' \<le> startTime l \<and> endTime l \<le> endTime l' \<and>
                 duration l' = Some (endTime l' - startTime l') \<and> text' l' = text' l) transcript out"
proof (induction transcript arbitrary: cursors out)
  case Nil
  then show ?case by simp
next
  case (Cons line rest)
  from Cons.prems(4) obtain cursors' line' rest' where
    a: "adjust_line video_shots words cursors line = Inr (cursors', line')"
    and m: "match_loop video_shots words cursors' rest = Inr rest'"
    and o: "out = line' # rest'"
    by (rule match_loop_Cons_Inr)
  from Cons.prems(1) have le: "startTime line \<le> endTime line"
    and after: "\<forall>m\<in>set rest. endTime line \<le> startTime m"
    and rest_ord: "lines_in_order rest"
    by (auto simp: lines_in_order_def)
  from Cons.prems(2) have ob: "on_word_boundaries words line"
    and rest_ob: "\<forall>l\<in>set rest. on_word_boundaries words l" by simp_all
  from Cons.prems(3) have inv: "\<forall>i<snd cursors. startTime (words ! i) < startTime line" by simp
  note c = adjust_line_contains [OF w ob le inv a]
  have inv': "\<forall>l\<in>set rest. \<forall>i<snd cursors'. startTime (words ! i) < startTime l"
    using c(3) after by fastforce
  from Cons.IH [OF rest_ord rest_ob inv' m] c(1,2) adjust_line_fields [OF a] o
  show ?case by simp
qed

text \<open>
  C5, as amended. Let the words be in order and disjoint, and let the lines be in order,
  disjoint, each starting where a word starts and ending where a word ends that the word
  cursor can reach (any word but the last one, when there are two words or more). Then in
  a run that returns, every aligned line contains the line it was made from: its start is
  at most the original start and its end at least the original end, so its duration, which
  is its end minus its start, is not negative. The lines keep their positions and texts.
  Nothing is said about the order of the aligned boundaries among each other: they may
  overlap, see the counterexample.
\<close>

theorem aligned_segments_contain_originals:
  assumes "words_in_order words" and "lines_in_order transcript"
    and "list_all (on_word_boundaries words) transcript"
    and "match_with_video_shots video_shots transcript words = Inr out"
  shows "length out = length transcript \<and>
         (\<forall>i<length transcript.
            startTime (out ! i) \<le> startTime (transcript ! i) \<and>
            endTime (transcript ! i) \<le> endTime (out ! i) \<and>
            duration (out ! i) = Some (endTime (out ! i) - startTime (out ! i)) \<and>
            0 \<le> endTime (out ! i) - startTime (out ! i) \<and>
            text' (out ! i) = text' (transcript ! i))"
proof -
  have inv: "\<forall>l\<in>set transcript. \<forall>i<snd (0::nat, 0::nat). startTime (words ! i) < startTime l"
    by simp
  from assms(3) have ob: "\<forall>l\<in>set transcript. on_word_boundaries words l"
    by (simp add: list_all_iff)
  from match_loop_contains [OF assms(1,2) ob inv assms(4) [unfolded match_with_video_shots_def]]
  have c: "list_all2 (\<lambda>l l'. startTime l' \<le> startTime l \<and> endTime l \<le> endTime l' \<and>
                 duration l' = Some (endTime l' - startTime l') \<and> text' l' = text' l) transcript out" .
  then have len: "length out = length transcript" by (simp add: list_all2_lengthD)
  have "startTime (out ! i) \<le> startTime (transcript ! i) \<and>
            endTime (transcript ! i) \<le> endTime (out ! i) \<and>
            duration (out ! i) = Some (endTime (out ! i) - startTime (out ! i)) \<and>
            0 \<le> endTime (out ! i) - startTime (out ! i) \<and>
            text' (out ! i) = text' (transcript ! i)" if i: "i < length transcript" for i
  proof -
    from list_all2_nthD [OF c i]
    have n: "startTime (out ! i) \<le> startTime (transcript ! i)" "endTime (transcript ! i) \<le> endTime (out ! i)"
      "duration (out ! i) = Some (endTime (out ! i) - startTime (out ! i))" "text' (out ! i) = text' (transcript ! i)"
      by simp_all
    from assms(2) i have "startTime (transcript ! i) \<le> endTime (transcript ! i)"
      by (simp add: lines_in_order_def list_all_length)
    with n show ?thesis by simp
  qed
  with len show ?thesis by blast
qed

theorem aligned_segments_contain_originals_witness:
  "words_in_order ex_words \<and> lines_in_order ex_two \<and>
   list_all (on_word_boundaries ex_words) ex_two \<and>
   match_with_video_shots ex_shots ex_two ex_words =
     Inr [ex_clip ''b'' (1 / 2) 3 (Some (5 / 2)), ex_clip ''c'' 0 5 (Some 5)] \<and>
   startTime ([ex_clip ''b'' (1 / 2) 3 (Some (5 / 2)), ex_clip ''c'' 0 5 (Some 5)] ! 1)
     \<le> startTime (ex_two ! 1) \<and>
   endTime (ex_two ! 1)
     \<le> endTime ([ex_clip ''b'' (1 / 2) 3 (Some (5 / 2)), ex_clip ''c'' 0 5 (Some 5)] ! 1) \<and>
   0 \<le> endTime ([ex_clip ''b'' (1 / 2) 3 (Some (5 / 2)), ex_clip ''c'' 0 5 (Some 5)] ! 1) -
         startTime ([ex_clip ''b'' (1 / 2) 3 (Some (5 / 2)), ex_clip ''c'' 0 5 (Some 5)] ! 1)"
proof -
  have i: "1 < length ex_two" by code_simp
  from aligned_segments_contain_originals
    [OF ex_words_in_order ex_two_in_order ex_two_on_words ex_two_run] i
  have "startTime ([ex_clip ''b'' (1 / 2) 3 (Some (5 / 2)), ex_clip ''c'' 0 5 (Some 5)] ! 1)
     \<le> startTime (ex_two ! 1) \<and>
   endTime (ex_two ! 1)
     \<le> endTime ([ex_clip ''b'' (1 / 2) 3 (Some (5 / 2)), ex_clip ''c'' 0 5 (Some 5)] ! 1) \<and>
   0 \<le> endTime ([ex_clip ''b'' (1 / 2) 3 (Some (5 / 2)), ex_clip ''c'' 0 5 (Some 5)] ! 1) -
         startTime ([ex_clip ''b'' (1 / 2) 3 (Some (5 / 2)), ex_clip ''c'' 0 5 (Some 5)] ! 1)"
    by blast
  with ex_words_in_order ex_two_in_order ex_two_on_words ex_two_run show ?thesis by blast
qed

text \<open>
  The claim as the specification states it fails on three lines in order, over five words
  in order and one shot that covers them: the aligned starts are \<open>1/2\<close>, \<open>0\<close> and \<open>6\<close>,
  so the second aligned line starts before the first and overlaps it, and the third line,
  which is the last word, ends at \<open>5\<close>, before it starts: its duration is \<open>-1\<close>.
\<close>

theorem ordered_nonnegative_counterexample:
  "words_in_order ex_words \<and> lines_in_order ex_three \<and>
   match_with_video_shots ex_shots ex_three ex_words =
     Inr [ex_clip ''b'' (1 / 2) 3 (Some (5 / 2)), ex_clip ''c'' 0 5 (Some 5),
          ex_clip ''e'' 6 5 (Some (- 1))]"
  using ex_words_in_order ex_three_in_order ex_three_run by blast

section \<open>A second pass of the aligner\<close>

text \<open>
  C6, as amended. Alignment is not idempotent. When the aligner runs a second time on its
  own output, the start of a line stays where it is exactly when, for the shot and the word
  under the cursors of the second pass, either the word does not start at the line's start
  and ends exactly there, or the word ends no later than the start (or starts at it) and the
  start is not after the start of the shot; the end stays exactly when either the word does
  not end at the line's end and starts exactly there, or the word starts no earlier than the
  end (or ends at it) and the shot ends no later than the end. The first pass does not
  establish these conditions.
\<close>

theorem realignment_fixed_point_condition:
  assumes "match_with_video_shots video_shots transcript words = Inr out"
    and "match_with_video_shots video_shots out words = Inr out'"
    and "i < length out"
    and "cursor_trace video_shots words (0, 0) out ! i = (si1, wi1, si2, wi2)"
  shows "(startTime (out' ! i) = startTime (out ! i) \<longleftrightarrow>
            (if startTime (words ! wi1) \<noteq> startTime (out ! i)
             then endTime (words ! wi1) = startTime (out ! i) \<or>
                  endTime (words ! wi1) \<le> startTime (out ! i) \<and>
                  startTime (out ! i) \<le> start_time (video_shots ! si1)
             else startTime (out ! i) \<le> start_time (video_shots ! si1))) \<and>
         (endTime (out' ! i) = endTime (out ! i) \<longleftrightarrow>
            (if endTime (words ! wi2) \<noteq> endTime (out ! i)
             then startTime (words ! wi2) = endTime (out ! i) \<or>
                  endTime (out ! i) \<le> startTime (words ! wi2) \<and>
                  end_time (video_shots ! si2) \<le> endTime (out ! i)
             else end_time (video_shots ! si2) \<le> endTime (out ! i)))"
proof -
  from match_loop_nth [OF assms(2) [unfolded match_with_video_shots_def] assms(3)] assms(4)
  obtain si wi new_start new_end where
    s: "adjust_start video_shots words si wi (startTime (out ! i)) = Inr (si1, wi1, new_start)"
    and e: "adjust_end video_shots words si1 wi1 (endTime (out ! i)) = Inr (si2, wi2, new_end)"
    and o: "out' ! i = (out ! i)\<lparr>startTime := new_start, endTime := new_end,
                                 duration := Some (new_end - new_start)\<rparr>"
    by auto
  have st: "startTime (out' ! i) = new_start" and en: "endTime (out' ! i) = new_end"
    using o by simp_all
  show ?thesis
    unfolding st en adjust_start_Inr(4) [OF s] adjust_end_Inr(4) [OF e]
    by (auto simp: max_def min_def)
qed

theorem realignment_fixed_point_condition_witness:
  "match_with_video_shots ex_shots ex_two ex_words =
     Inr [ex_clip ''b'' (1 / 2) 3 (Some (5 / 2)), ex_clip ''c'' 0 5 (Some 5)] \<and>
   match_with_video_shots ex_shots
     [ex_clip ''b'' (1 / 2) 3 (Some (5 / 2)), ex_clip ''c'' 0 5 (Some 5)] ex_words =
     Inr [ex_clip ''b'' (1 / 2) 3 (Some (5 / 2)), ex_clip ''c'' 4 5 (Some 1)] \<and>
   (startTime ([ex_clip ''b'' (1 / 2) 3 (Some (5 / 2)), ex_clip ''c'' 4 5 (Some 1)] ! 0) =
    startTime ([ex_clip ''b'' (1 / 2) 3 (Some (5 / 2)), ex_clip ''c'' 0 5 (Some 5)] ! 0)) =
   (if startTime (ex_words ! 0) \<noteq>
       startTime ([ex_clip ''b'' (1 / 2) 3 (Some (5 / 2)), ex_clip ''c'' 0 5 (Some 5)] ! 0)
    then endTime (ex_words ! 0) =
           startTime ([ex_clip ''b'' (1 / 2) 3 (Some (5 / 2)), ex_clip ''c'' 0 5 (Some 5)] ! 0) \<or>
         endTime (ex_words ! 0) \<le>
           startTime ([ex_clip ''b'' (1 / 2) 3 (Some (5 / 2)), ex_clip ''c'' 0 5 (Some 5)] ! 0) \<and>
         startTime ([ex_clip ''b'' (1 / 2) 3 (Some (5 / 2)), ex_clip ''c'' 0 5 (Some 5)] ! 0) \<le>
           start_time (ex_shots ! 0)
    else startTime ([ex_clip ''b'' (1 / 2) 3 (Some (5 / 2)), ex_clip ''c'' 0 5 (Some 5)] ! 0) \<le>
           start_time (ex_shots ! 0))"
proof -
  have i: "0 < length [ex_clip ''b'' (1 / 2) 3 (Some (5 / 2)), ex_clip ''c'' 0 5 (Some 5)]"
    by simp
  have t: "cursor_trace ex_shots ex_words (0, 0)
     [ex_clip ''b'' (1 / 2) 3 (Some (5 / 2)), ex_clip ''c'' 0 5 (Some 5)] ! 0 = (0, 0, 0, 2)"
    by (simp add: ex_two_retrace)
  from realignment_fixed_point_condition [OF ex_two_run ex_two_rerun i t] ex_two_run ex_two_rerun
  show ?thesis by blast
qed

text \<open>
  The second line of the example: the first pass moves its start from \<open>3\<close> to \<open>0\<close>, the
  start of the shot, and the second pass moves it from \<open>0\<close> to \<open>4\<close>, the end of the word
  under the cursor.
\<close>

theorem alignment_idempotent_counterexample:
  "match_with_video_shots ex_shots ex_two ex_words =
     Inr [ex_clip ''b'' (1 / 2) 3 (Some (5 / 2)), ex_clip ''c'' 0 5 (Some 5)] \<and>
   match_with_video_shots ex_shots
     [ex_clip ''b'' (1 / 2) 3 (Some (5 / 2)), ex_clip ''c'' 0 5 (Some 5)] ex_words =
     Inr [ex_clip ''b'' (1 / 2) 3 (Some (5 / 2)), ex_clip ''c'' 4 5 (Some 1)] \<and>
   ex_clip ''c'' 4 5 (Some 1) \<noteq> ex_clip ''c'' 0 5 (Some 5)"
proof -
  have "ex_clip ''c'' 4 5 (Some 1) \<noteq> ex_clip ''c'' 0 5 (Some 5)"
    by (simp add: ex_clip_def)
  with ex_two_run ex_two_rerun show ?thesis by blast
qed

section \<open>The retry loop\<close>

lemma retry_body_too_short:
  "dur < min_duration \<Longrightarrow>
   retry_body env language full_text user_prompt min_duration transcript_words video_shots
     input_transcript (calls, shortened_text, dur, temperature) =
   Inr (calls + 1, send_transcript_to_llm env calls (make_prompt env full_text user_prompt) None,
        dur, temperature)"
  by (simp add: retry_body_def)

lemma retry_loop_Some_not_too_short:
  assumes run: "retry_loop env language full_text user_prompt max_duration min_duration
     transcript_words video_shots input_transcript state = Some y"
  shows "\<not> (snd (snd (snd state)) < 6 / 10 \<and> fst (snd (snd state)) < min_duration)"
proof (rule retry_loop.raw_induct
    [where P = "\<lambda>env language full_text user_prompt max_duration min_duration transcript_words
                  video_shots input_transcript state y.
                  \<not> (snd (snd (snd state)) < 6 / 10 \<and> fst (snd (snd state)) < min_duration)",
     OF _ run])
  fix f :: "'a collaborators \<Rightarrow> language \<Rightarrow> string \<Rightarrow> json \<Rightarrow> rat \<Rightarrow> rat \<Rightarrow> word list \<Rightarrow> shot list \<Rightarrow>
   transcript_line list \<Rightarrow> nat \<times> string \<times> rat \<times> rat \<Rightarrow>
   (error + (nat \<times> string \<times> rat \<times> rat)) option"
  fix env language full_text user_prompt max_duration min_duration transcript_words
    video_shots input_transcript and state :: "nat \<times> string \<times> rat \<times> rat" and y
  assume IH: "\<And>env language full_text user_prompt max_duration min_duration transcript_words
      video_shots input_transcript state y.
      f env language full_text user_prompt max_duration min_duration transcript_words
        video_shots input_transcript state = Some y \<Longrightarrow>
      \<not> (snd (snd (snd state)) < 6 / 10 \<and> fst (snd (snd state)) < min_duration)"
  assume eq: "(case state of
      (calls, shortened_text, dur, temperature) \<Rightarrow>
        if temperature < 6 / 10 \<and> (max_duration < dur \<or> dur < min_duration)
        then case retry_body env language full_text user_prompt min_duration
                   transcript_words video_shots input_transcript state of
             Inl e \<Rightarrow> Some (Inl e)
             | Inr state' \<Rightarrow>
                 f env language full_text user_prompt max_duration
                  min_duration transcript_words video_shots input_transcript state'
        else Some (Inr state)) = Some y"
  obtain calls shortened_text dur temperature where
    st: "state = (calls, shortened_text, dur, temperature)"
    by (cases state) auto
  show "\<not> (snd (snd (snd state)) < 6 / 10 \<and> fst (snd (snd state)) < min_duration)"
  proof
    assume "snd (snd (snd state)) < 6 / 10 \<and> fst (snd (snd state)) < min_duration"
    with st have t: "temperature < 6 / 10" and d: "dur < min_duration" by simp_all
    from eq t d
    have "f env language full_text user_prompt max_duration min_duration transcript_words
            video_shots input_transcript
            (calls + 1, send_transcript_to_llm env calls (make_prompt env full_text user_prompt) None,
             dur, temperature) = Some y"
      by (simp add: st retry_body_too_short)
    from IH [OF this] t d show False by simp
  qed
qed

lemma retry_loop_too_short:
  assumes "temperature < 6 / 10" and "dur < min_duration"
  shows "retry_loop env language full_text user_prompt max_duration min_duration transcript_words
           video_shots input_transcript (calls, shortened_text, dur, temperature) = None"
proof (rule ccontr)
  assume "retry_loop env language full_text user_prompt max_duration min_duration transcript_words
           video_shots input_transcript (calls, shortened_text, dur, temperature) \<noteq> None"
  then obtain y where "retry_loop env language full_text user_prompt max_duration min_duration
           transcript_words video_shots input_transcript (calls, shortened_text, dur, temperature) = Some y"
    by blast
  from retry_loop_Some_not_too_short [OF this] assms show False by simp
qed

text \<open>
  C1. The retry loop does not always halt. In automated mode, when the first reply is not
  the blocked sentinel and the duration computed from it is below the minimum, the loop
  asks the language model again and again: the branch of line 180 changes neither the
  duration nor the temperature, so the test of line 178 stays true, and the function never
  returns. The comment of line 176, "Keep the loop for maximum 3 times", says what was
  meant.
\<close>

theorem too_short_first_attempt_never_returns:
  assumes "req_transcript request = Some input_transcript"
    and "data_get request ''version'' = JStr ''automated''"
    and "read_bounds env request = (max_duration, min_duration, language_code)"
    and "language = (if language_code = JStr ''th-TH'' then Thai else DefaultLanguage)"
    and "shortened_text =
           send_transcript_to_llm env 0
             (make_prompt env (join_lines (map line_text input_transcript))
                (data_get request ''prompt'')) None"
    and "shortened_text \<noteq> ''The response was blocked''"
    and "calculate_duration env language shortened_text (concat (map line_words input_transcript))
           (get_video_shots env (data_get request ''filename'')) input_transcript = Inr dur"
    and "dur < min_duration"
  shows "summarize_transcript env request = None"
proof -
  have t: "(1 / 5 :: rat) < 6 / 10" by simp
  have "automated env language (data_get request ''prompt'') max_duration min_duration
          (concat (map line_words input_transcript))
          (get_video_shots env (data_get request ''filename'')) input_transcript = None"
    using assms(5-7)
    by (simp add: automated_def Let_def retry_loop_too_short [OF t assms(8)])
  with assms(1-4) show ?thesis
    by (simp add: summarize_transcript_def Let_def)
qed

theorem too_short_first_attempt_never_returns_witness:
  "calculate_duration (ex_env [''b'']) Thai ''b'' (concat (map line_words [ex_line]))
     (get_video_shots (ex_env [''b''])
        (data_get (ex_request (JStr ''automated'') (JInt 10) (JInt 3)) ''filename''))
     [ex_line] = Inr (5 / 2) \<and>
   (5 / 2 :: rat) < 3 \<and>
   summarize_transcript (ex_env [''b'']) (ex_request (JStr ''automated'') (JInt 10) (JInt 3)) = None"
proof -
  let ?env = "ex_env [''b'']"
  let ?req = "ex_request (JStr ''automated'') (JInt 10) (JInt 3)"
  have h1: "req_transcript ?req = Some [ex_line]" by code_simp
  have h2: "data_get ?req ''version'' = JStr ''automated''" by code_simp
  have h3: "read_bounds ?env ?req = (10, 3, JStr ''th-TH'')" by code_simp
  have h4: "Thai = (if JStr ''th-TH'' = JStr ''th-TH'' then Thai else DefaultLanguage)" by simp
  have h5: "''b'' = send_transcript_to_llm ?env 0
      (make_prompt ?env (join_lines (map line_text [ex_line])) (data_get ?req ''prompt'')) None"
    by code_simp
  have h6: "''b'' \<noteq> ''The response was blocked''" by simp
  have h7: "calculate_duration ?env Thai ''b'' (concat (map line_words [ex_line]))
     (get_video_shots ?env (data_get ?req ''filename'')) [ex_line] = Inr (5 / 2)"
    by code_simp
  have h8: "(5 / 2 :: rat) < 3" by simp
  from too_short_first_attempt_never_returns [OF h1 h2 h3 h4 h5 h6 h7 h8] h7 h8
  show ?thesis by blast
qed

section \<open>The defaults of the duration range\<close>

text \<open>
  C8. When the conversion of \<^verbatim>\<open>max\<close> or of \<^verbatim>\<open>min\<close> to a float fails (the key is missing, or
  its value is no number, or it is an integer too large for a float), the maximum, the
  minimum and the language code are the defaults 40, 10 and \<^verbatim>\<open>en-US\<close>, whatever the
  request gives for the other two.
\<close>

theorem defaults_all_or_nothing:
  assumes "py_float (float_of_str env) (data_get request ''max'') = None \<or>
           py_float (float_of_str env) (data_get request ''min'') = None"
  shows "read_bounds env request = (40, 10, JStr ''en-US'')"
  using assms
  by (auto simp: read_bounds_def MAX_DURATION_def MIN_DURATION_def LANGUAGE_CODE_def
      split: option.splits)

lemma py_float_failures:
  "py_float of_str JNone = None"
  "py_float of_str JOther = None"
  "float_overflows n \<Longrightarrow> py_float of_str (JInt n) = None"
  "of_str s = None \<Longrightarrow> py_float of_str (JStr s) = None"
  by (simp_all add: py_float_def)

lemma ex_overflow: "float_overflows (10 ^ 400)"
  by (simp add: float_overflows_def)

theorem defaults_all_or_nothing_witness:
  "py_float (float_of_str (ex_env []))
     (data_get (ex_request (JStr ''automated'') (JStr ''forty'') (JInt 3)) ''max'') = None \<and>
   py_float (float_of_str (ex_env []))
     (data_get (ex_request (JStr ''automated'') (JStr ''forty'') (JInt 3)) ''min'') = Some 3 \<and>
   data_get (ex_request (JStr ''automated'') (JStr ''forty'') (JInt 3)) ''language_code'' =
     JStr ''th-TH'' \<and>
   read_bounds (ex_env []) (ex_request (JStr ''automated'') (JStr ''forty'') (JInt 3)) =
     (40, 10, JStr ''en-US'') \<and>
   py_float (float_of_str (ex_env []))
     (data_get (ex_request (JStr ''automated'') (JInt 10) (JInt (10 ^ 400))) ''max'') = Some 10 \<and>
   py_float (float_of_str (ex_env []))
     (data_get (ex_request (JStr ''automated'') (JInt 10) (JInt (10 ^ 400))) ''min'') = None \<and>
   read_bounds (ex_env []) (ex_request (JStr ''automated'') (JInt 10) (JInt (10 ^ 400))) =
     (40, 10, JStr ''en-US'')"
proof -
  let ?req = "ex_request (JStr ''automated'') (JStr ''forty'') (JInt 3)"
  let ?big = "ex_request (JStr ''automated'') (JInt 10) (JInt (10 ^ 400))"
  have h: "py_float (float_of_str (ex_env [])) (data_get ?req ''max'') = None"
    by (simp add: ex_request_def data_get_def ex_env_def py_float_def)
  have m: "py_float (float_of_str (ex_env [])) (data_get ?req ''min'') = Some 3"
    by (simp add: ex_request_def data_get_def ex_env_def py_float_def float_overflows_def)
  have l: "data_get ?req ''language_code'' = JStr ''th-TH''"
    by (simp add: ex_request_def data_get_def)
  have bm: "py_float (float_of_str (ex_env [])) (data_get ?big ''max'') = Some 10"
    by (simp add: ex_request_def data_get_def ex_env_def py_float_def float_overflows_def)
  have bn: "py_float (float_of_str (ex_env [])) (data_get ?big ''min'') = None"
    by code_simp
  from defaults_all_or_nothing [OF disjI1, OF h] defaults_all_or_nothing [OF disjI2, OF bn]
    h m l bm bn
  show ?thesis by blast
qed

section \<open>A version that is neither automated nor topic\<close>

text \<open>
  C9. For a request whose version is neither \<^verbatim>\<open>automated\<close> nor \<^verbatim>\<open>topic\<close> the function
  returns nothing: it raises UnboundLocalError at line 219, where \<^verbatim>\<open>full_text\<close> is read
  and was never assigned (or KeyError at line 129 already, when the request has no
  transcript).
\<close>

theorem unknown_version_unbound_local:
  assumes "data_get request ''version'' \<noteq> JStr ''automated''"
    and "data_get request ''version'' \<noteq> JStr ''topic''"
  shows "summarize_transcript env request =
           Some (Inl (if req_transcript request = None then KeyError else UnboundLocalError))"
  using assms
  by (simp add: summarize_transcript_def finish_def Let_def split: option.splits prod.splits)

theorem unknown_version_unbound_local_witness:
  "data_get (ex_request (JStr ''manual'') (JInt 4) (JInt 0)) ''version'' = JStr ''manual'' \<and>
   summarize_transcript (ex_env []) (ex_request (JStr ''manual'') (JInt 4) (JInt 0)) =
     Some (Inl UnboundLocalError)"
proof -
  let ?req = "ex_request (JStr ''manual'') (JInt 4) (JInt 0)"
  have v: "data_get ?req ''version'' = JStr ''manual''" by code_simp
  have h1: "data_get ?req ''version'' \<noteq> JStr ''automated''" by code_simp
  have h2: "data_get ?req ''version'' \<noteq> JStr ''topic''" by code_simp
  have t: "req_transcript ?req \<noteq> None" by code_simp
  from unknown_version_unbound_local [OF h1 h2, of "ex_env []"] t v show ?thesis by simp
qed

section \<open>The blocked sentinel\<close>

lemma finish_no_ValueError:
  "finish env language transcript_words video_shots input_transcript locals \<noteq>
   Inr (ReturnedValueError m)"
  by (simp add: finish_def split: option.splits prod.splits sum.splits)

section \<open>One iteration of the retry loop\<close>

text \<open>
  C2. One iteration of the loop from the state with \<open>calls\<close> calls made. When the duration
  is below the minimum, the language model is asked again with the full text, and neither
  the temperature nor the duration changes: the duration of the new text is not computed,
  so the next test of line 178 sees the duration of a text that was thrown away. Otherwise
  (the duration is above the maximum) the model is asked with the current shortened text,
  the duration is computed from the reply and the temperature grows by 0.1.
\<close>

theorem retry_body_branches:
  "(dur < min_duration \<longrightarrow>
      retry_body env language full_text user_prompt min_duration transcript_words video_shots
        input_transcript (calls, shortened_text, dur, temperature) =
      Inr (calls + 1,
           send_transcript_to_llm env calls (make_prompt env full_text user_prompt) None,
           dur, temperature)) \<and>
   (\<not> dur < min_duration \<longrightarrow>
      retry_body env language full_text user_prompt min_duration transcript_words video_shots
        input_transcript (calls, shortened_text, dur, temperature) =
      (case calculate_duration env language
              (send_transcript_to_llm env calls (make_prompt env shortened_text user_prompt) None)
              transcript_words video_shots input_transcript of
         Inl e \<Rightarrow> Inl e
       | Inr dur' \<Rightarrow>
           Inr (calls + 1,
                send_transcript_to_llm env calls (make_prompt env shortened_text user_prompt) None,
                dur', temperature + 1 / 10)))"
  by (simp add: retry_body_def Let_def)

theorem retry_body_branches_witness:
  "retry_body (ex_env [''b'', ''b c'']) Thai ''a b c d e'' JNone 3 ex_words ex_shots [ex_line]
     (1, ''b'', 5 / 2, 2 / 10) = Inr (2, ''b c'', 5 / 2, 2 / 10) \<and>
   calculate_duration (ex_env [''b'', ''b c'']) Thai ''b c'' ex_words ex_shots [ex_line] =
     Inr (15 / 2) \<and>
   retry_body (ex_env [''b c'', ''b'']) Thai ''a b c d e'' JNone 3 ex_words ex_shots [ex_line]
     (1, ''b c'', 15 / 2, 2 / 10) = Inr (2, ''b'', 5 / 2, 3 / 10)"
proof -
  have a: "(5 / 2 :: rat) < 3" by simp
  have b: "\<not> (15 / 2 :: rat) < 3" by simp
  have r1: "send_transcript_to_llm (ex_env [''b'', ''b c'']) 1
              (make_prompt (ex_env [''b'', ''b c'']) ''a b c d e'' JNone) None = ''b c''"
    by code_simp
  have r2: "send_transcript_to_llm (ex_env [''b c'', ''b'']) 1
              (make_prompt (ex_env [''b c'', ''b'']) ''b c'' JNone) None = ''b''"
    by code_simp
  have d1: "calculate_duration (ex_env [''b'', ''b c'']) Thai ''b c'' ex_words ex_shots [ex_line] =
     Inr (15 / 2)" by code_simp
  have d2: "calculate_duration (ex_env [''b c'', ''b'']) Thai ''b'' ex_words ex_shots [ex_line] =
     Inr (5 / 2)" by code_simp
  from retry_body_branches [of "5 / 2" 3 "ex_env [''b'', ''b c'']" Thai "''a b c d e''" JNone
      ex_words ex_shots "[ex_line]" 1 "''b''" "2 / 10"] a r1
  have 1: "retry_body (ex_env [''b'', ''b c'']) Thai ''a b c d e'' JNone 3 ex_words ex_shots [ex_line]
     (1, ''b'', 5 / 2, 2 / 10) = Inr (2, ''b c'', 5 / 2, 2 / 10)"
    by simp
  from retry_body_branches [of "15 / 2" 3 "ex_env [''b c'', ''b'']" Thai "''a b c d e''" JNone
      ex_words ex_shots "[ex_line]" 1 "''b c''" "2 / 10"] b r2 d2
  have 2: "retry_body (ex_env [''b c'', ''b'']) Thai ''a b c d e'' JNone 3 ex_words ex_shots [ex_line]
     (1, ''b c'', 15 / 2, 2 / 10) = Inr (2, ''b'', 5 / 2, 3 / 10)"
    by simp
  from 1 d1 2 show ?thesis by blast
qed

text \<open>
  C7. The blocked sentinel is compared with the first reply of automated mode only (line
  160). In topic mode no reply is compared with it: the function goes on to line 219 with
  whatever the three replies give. In automated mode a retry's reply is not compared
  either: when the first reply is too long and the reply of the first retry is the
  sentinel, with a duration in range, the sentinel is the shortened text the segments are
  made from. Lines 219-238 never return the \<^verbatim>\<open>ValueError\<close> of line 161.
\<close>

theorem blocked_reply_is_used:
  assumes "req_transcript request = Some input_transcript"
    and "read_bounds env request = (max_duration, min_duration, language_code)"
    and "language = (if language_code = JStr ''th-TH'' then Thai else DefaultLanguage)"
    and "transcript_words = concat (map line_words input_transcript)"
    and "video_shots = get_video_shots env (data_get request ''filename'')"
    and "full_text = join_lines (map line_text input_transcript)"
    and "user_prompt = data_get request ''prompt''"
    and "first = send_transcript_to_llm env 0 (make_prompt env full_text user_prompt) None"
  shows "(data_get request ''version'' = JStr ''topic'' \<longrightarrow>
            summarize_transcript env request =
            Some (finish env language transcript_words video_shots input_transcript
                    (Some (topic env user_prompt input_transcript)))) \<and>
         (data_get request ''version'' = JStr ''automated'' \<and>
          first \<noteq> ''The response was blocked'' \<and>
          calculate_duration env language first transcript_words video_shots input_transcript =
            Inr dur \<and>
          max_duration < dur \<and> \<not> dur < min_duration \<and>
          send_transcript_to_llm env 1 (make_prompt env first user_prompt) None =
            ''The response was blocked'' \<and>
          calculate_duration env language ''The response was blocked'' transcript_words video_shots
            input_transcript = Inr dur' \<and>
          min_duration \<le> dur' \<and> dur' \<le> max_duration \<longrightarrow>
            summarize_transcript env request =
            Some (finish env language transcript_words video_shots input_transcript
                    (Some (full_text, ''The response was blocked'')))) \<and>
         (\<forall>locals m. finish env language transcript_words video_shots input_transcript locals \<noteq>
            Inr (ReturnedValueError m))"
proof (intro conjI impI allI)
  assume "data_get request ''version'' = JStr ''topic''"
  with assms show "summarize_transcript env request =
            Some (finish env language transcript_words video_shots input_transcript
                    (Some (topic env user_prompt input_transcript)))"
    by (simp add: summarize_transcript_def Let_def)
next
  assume a: "data_get request ''version'' = JStr ''automated'' \<and>
          first \<noteq> ''The response was blocked'' \<and>
          calculate_duration env language first transcript_words video_shots input_transcript =
            Inr dur \<and>
          max_duration < dur \<and> \<not> dur < min_duration \<and>
          send_transcript_to_llm env 1 (make_prompt env first user_prompt) None =
            ''The response was blocked'' \<and>
          calculate_duration env language ''The response was blocked'' transcript_words video_shots
            input_transcript = Inr dur' \<and>
          min_duration \<le> dur' \<and> dur' \<le> max_duration"
  have step1: "retry_loop env language full_text user_prompt max_duration min_duration
      transcript_words video_shots input_transcript (1, first, dur, 2 / 10) =
    retry_loop env language full_text user_prompt max_duration min_duration
      transcript_words video_shots input_transcript (2, ''The response was blocked'', dur', 3 / 10)"
    by (subst retry_loop.simps) (use a in \<open>simp add: retry_body_def Let_def numeral_2_eq_2\<close>)
  have step2: "retry_loop env language full_text user_prompt max_duration min_duration
      transcript_words video_shots input_transcript (2, ''The response was blocked'', dur', 3 / 10) =
    Some (Inr (2, ''The response was blocked'', dur', 3 / 10))"
    by (subst retry_loop.simps) (use a in simp)
  have "automated env language user_prompt max_duration min_duration transcript_words video_shots
          input_transcript = Some (Continue (full_text, ''The response was blocked''))"
    unfolding automated_def Let_def assms(6) [symmetric] assms(8) [symmetric]
    using a step1 step2 by simp
  with assms a show "summarize_transcript env request =
            Some (finish env language transcript_words video_shots input_transcript
                    (Some (full_text, ''The response was blocked'')))"
    by (simp add: summarize_transcript_def Let_def)
next
  fix locals m
  show "finish env language transcript_words video_shots input_transcript locals \<noteq>
            Inr (ReturnedValueError m)"
    by (rule finish_no_ValueError)
qed

theorem blocked_reply_is_used_witness:
  "summarize_transcript (ex_env [''b c'', ''The response was blocked''])
     (ex_request (JStr ''automated'') (JInt 4) (JInt 0)) = Some (Inr (Summarized [])) \<and>
   summarize_transcript
     (ex_env [''The response was blocked'', ''The response was blocked'', ''The response was blocked''])
     (ex_request (JStr ''topic'') (JInt 4) (JInt 0)) = Some (Inr (Summarized []))"
proof -
  let ?B = "''The response was blocked''"
  let ?env = "ex_env [''b c'', ?B]"
  let ?req = "ex_request (JStr ''automated'') (JInt 4) (JInt 0)"
  have h1: "req_transcript ?req = Some [ex_line]" by code_simp
  have h2: "read_bounds ?env ?req = (4, 0, JStr ''th-TH'')" by code_simp
  have h3: "Thai = (if JStr ''th-TH'' = JStr ''th-TH'' then Thai else DefaultLanguage)" by simp
  have h4: "ex_words = concat (map line_words [ex_line])" by code_simp
  have h5: "ex_shots = get_video_shots ?env (data_get ?req ''filename'')" by code_simp
  have h6: "''a b c d e'' = join_lines (map line_text [ex_line])" by code_simp
  have h7: "JNone = data_get ?req ''prompt''" by code_simp
  have h8: "''b c'' = send_transcript_to_llm ?env 0 (make_prompt ?env ''a b c d e'' JNone) None"
    by code_simp
  have a1: "data_get ?req ''version'' = JStr ''automated''" by code_simp
  have a2: "''b c'' \<noteq> ?B" by simp
  have a3: "calculate_duration ?env Thai ''b c'' ex_words ex_shots [ex_line] = Inr (15 / 2)"
    by code_simp
  have a4: "(4 :: rat) < 15 / 2" "\<not> (15 / 2 :: rat) < 0" "(0 :: rat) \<le> 0" "(0 :: rat) \<le> 4"
    by simp_all
  have a5: "send_transcript_to_llm ?env 1 (make_prompt ?env ''b c'' JNone) None = ?B" by code_simp
  have a6: "calculate_duration ?env Thai ?B ex_words ex_shots [ex_line] = Inr 0" by code_simp
  have f: "finish ?env Thai ex_words ex_shots [ex_line] (Some (''a b c d e'', ?B)) =
             Inr (Summarized [])" by code_simp
  from blocked_reply_is_used [OF h1 h2 h3 h4 h5 h6 h7 h8, of "15 / 2" 0]
    a1 a2 a3 a4 a5 a6
  have "summarize_transcript ?env ?req =
          Some (finish ?env Thai ex_words ex_shots [ex_line] (Some (''a b c d e'', ?B)))"
    by blast
  with f have 1: "summarize_transcript ?env ?req = Some (Inr (Summarized []))" by simp
  let ?env' = "ex_env [?B, ?B, ?B]"
  let ?req' = "ex_request (JStr ''topic'') (JInt 4) (JInt 0)"
  have k1: "req_transcript ?req' = Some [ex_line]" by code_simp
  have k2: "read_bounds ?env' ?req' = (4, 0, JStr ''th-TH'')" by code_simp
  have k5: "ex_shots = get_video_shots ?env' (data_get ?req' ''filename'')" by code_simp
  have k7: "JNone = data_get ?req' ''prompt''" by code_simp
  have k8: "?B = send_transcript_to_llm ?env' 0 (make_prompt ?env' ''a b c d e'' JNone) None"
    by code_simp
  have b1: "data_get ?req' ''version'' = JStr ''topic''" by code_simp
  have g: "finish ?env' Thai ex_words ex_shots [ex_line] (Some (topic ?env' JNone [ex_line])) =
             Inr (Summarized [])" by code_simp
  from blocked_reply_is_used [OF k1 k2 h3 h4 k5 h6 k7 k8] b1
  have "summarize_transcript ?env' ?req' =
          Some (finish ?env' Thai ex_words ex_shots [ex_line] (Some (topic ?env' JNone [ex_line])))"
    by blast
  with g have 2: "summarize_transcript ?env' ?req' = Some (Inr (Summarized []))" by simp
  from 1 2 show ?thesis by blast
qed

section \<open>The bound of the retry loop where it has one\<close>

lemma retry_loop_returns_within:
  assumes never_short: "\<forall>text d. calculate_duration env language text transcript_words video_shots
                          input_transcript = Inr d \<longrightarrow> \<not> d < min_duration"
  shows "\<not> dur < min_duration \<Longrightarrow> 6 / 10 - rat_of_nat k / 10 \<le> temperature \<Longrightarrow>
    \<exists>r. retry_loop env language full_text user_prompt max_duration min_duration transcript_words
          video_shots input_transcript (calls, shortened_text, dur, temperature) = Some r \<and>
        (case r of Inl e \<Rightarrow> True | Inr state \<Rightarrow> fst state \<le> calls + k)"
proof (induction k arbitrary: calls shortened_text dur temperature)
  case 0
  then have "\<not> temperature < 6 / 10" by simp
  then show ?case by (subst retry_loop.simps) simp
next
  case (Suc k)
  show ?case
  proof (cases "temperature < 6 / 10 \<and> (max_duration < dur \<or> dur < min_duration)")
    case False
    then show ?thesis by (subst retry_loop.simps) auto
  next
    case True
    let ?text = "send_transcript_to_llm env calls (make_prompt env shortened_text user_prompt) None"
    show ?thesis
    proof (cases "calculate_duration env language ?text transcript_words video_shots input_transcript")
      case (Inl e)
      with True Suc.prems(1) show ?thesis
        by (subst retry_loop.simps) (simp add: retry_body_def Let_def)
    next
      case (Inr d)
      from never_short Inr have d: "\<not> d < min_duration" by blast
      from Suc.prems(2) have t: "6 / 10 - rat_of_nat k / 10 \<le> temperature + 1 / 10"
        by (simp add: field_simps)
      from Suc.IH [OF d t, of "calls + 1" ?text]
      obtain r where r: "retry_loop env language full_text user_prompt max_duration min_duration
          transcript_words video_shots input_transcript (calls + 1, ?text, d, temperature + 1 / 10) = Some r"
        "case r of Inl e \<Rightarrow> True | Inr state \<Rightarrow> fst state \<le> calls + 1 + k"
        by blast
      have "retry_loop env language full_text user_prompt max_duration min_duration transcript_words
          video_shots input_transcript (calls, shortened_text, dur, temperature) = Some r"
        using True Suc.prems(1) Inr r(1)
        by (subst retry_loop.simps) (simp add: retry_body_def Let_def)
      moreover from r(2) have "case r of Inl e \<Rightarrow> True | Inr state \<Rightarrow> fst state \<le> calls + Suc k"
        by (auto split: sum.splits)
      ultimately show ?thesis by blast
    qed
  qed
qed

text \<open>
  When no shortened text has a duration below the minimum, the loop of automated mode
  returns (or raises) after at most four retries: five calls of the language model, the
  first attempt counted.
\<close>

theorem retry_loop_at_most_four_retries:
  assumes "\<forall>text d. calculate_duration env language text transcript_words video_shots
             input_transcript = Inr d \<longrightarrow> \<not> d < min_duration"
    and "\<not> dur < min_duration"
  shows "\<exists>r. retry_loop env language full_text user_prompt max_duration min_duration transcript_words
          video_shots input_transcript (1, shortened_text, dur, 2 / 10) = Some r \<and>
        (case r of Inl e \<Rightarrow> True | Inr state \<Rightarrow> fst state \<le> 1 + 4)"
proof -
  have "6 / 10 - rat_of_nat 4 / 10 \<le> (2 / 10 :: rat)" by simp
  from retry_loop_returns_within [OF assms(1) assms(2) this] show ?thesis by blast
qed

lemma ex_env_never_short:
  "\<forall>t d. calculate_duration (ex_env replies) Thai t ex_words ex_shots [ex_line] = Inr d \<longrightarrow>
     \<not> d < 0"
proof (intro allI impI)
  fix t d
  assume c: "calculate_duration (ex_env replies) Thai t ex_words ex_shots [ex_line] = Inr d"
  have m: "get_clips_from_transcript (ex_env replies) Thai ex_words s [ex_line] =
             ex_mapper Thai ex_words s [ex_line]" for s
    by (simp add: ex_env_def)
  have 1: "match_with_video_shots ex_shots [ex_clip ''b'' 1 2 None] ex_words =
             Inr [ex_clip ''b'' (1 / 2) 3 (Some (5 / 2))]"
    by code_simp
  have 2: "sum_durations 0 [ex_clip ''b'' (1 / 2) 3 (Some (5 / 2))] = Inr (5 / 2)"
    by code_simp
  have 3: "sum_durations 0
             [ex_clip ''b'' (1 / 2) 3 (Some (5 / 2)), ex_clip ''c'' 0 5 (Some 5)] = Inr (15 / 2)"
    by code_simp
  have 4: "match_with_video_shots ex_shots [] ex_words = Inr []"
    by (simp add: match_with_video_shots_def)
  have b: "calculate_duration (ex_env replies) Thai ''b'' ex_words ex_shots [ex_line] = Inr (5 / 2)"
    by (simp add: calculate_duration_def m ex_mapper_def 1 2 del: sum_durations.simps)
  have bc: "calculate_duration (ex_env replies) Thai ''b c'' ex_words ex_shots [ex_line] =
              Inr (15 / 2)"
    by (simp add: calculate_duration_def m ex_mapper_def ex_two_run 3 del: sum_durations.simps)
  have other: "calculate_duration (ex_env replies) Thai t ex_words ex_shots [ex_line] = Inr 0"
    if "t \<noteq> ''b''" "t \<noteq> ''b c''"
    using that by (simp add: calculate_duration_def m ex_mapper_def 4)
  consider "t = ''b''" | "t = ''b c''" | "t \<noteq> ''b''" "t \<noteq> ''b c''" by blast
  then show "\<not> d < 0"
  proof cases
    case 1 with c b show ?thesis by simp
  next
    case 2 with c bc show ?thesis by simp
  next
    case 3 with c other show ?thesis by simp
  qed
qed

theorem retry_loop_at_most_four_retries_witness:
  "\<exists>r. retry_loop (ex_env [''b c'', ''b c'', ''b c'', ''b c'', ''b c'']) Thai ''a b c d e'' JNone 4 0
          ex_words ex_shots [ex_line] (1, ''b c'', 15 / 2, 2 / 10) = Some r \<and>
        (case r of Inl e \<Rightarrow> True | Inr state \<Rightarrow> fst state \<le> 1 + 4)"
proof -
  have "\<not> (15 / 2 :: rat) < 0" by simp
  from retry_loop_at_most_four_retries [OF ex_env_never_short this] show ?thesis .
qed

end
